theory Spec2Isabelle
  imports Main "HOL-Library.Multiset"
begin

section \<open>Cards and the hand evaluator\<close>

text \<open>
  The game view (src/debug.tsx) keeps each hand as an array of \<open>UICard\<close> objects:
  a rank string, a suit path and the flag \<open>isFaceDown\<close>.
\<close>

record UICard =
  rank :: string
  suit :: string
  isFaceDown :: bool

text \<open>
  \<open>calculateHandValue\<close> reads a numeric rank with \<open>Number(rank)\<close>. For a string of
  decimal digits that is its decimal value, which is what \<open>Number_js\<close> computes; the
  other spellings JavaScript accepts (signs, exponents, blanks) and the strings it maps
  to NaN are outside this model, and every theorem that depends on \<open>Number_js\<close>
  restricts the ranks to the thirteen ranks of a deck (\<open>isRank\<close>).
\<close>

fun digits_value :: "int \<Rightarrow> string \<Rightarrow> int" where
  "digits_value acc [] = acc"
| "digits_value acc (c # cs) = digits_value (10 * acc + (of_char c - 48)) cs"

definition Number_js :: "string \<Rightarrow> int" where
  "Number_js r = digits_value 0 r"

text \<open>
  Lines 96-104: the \<open>for\<close> loop over the revealed ranks, threading \<open>total\<close>
  (here \<open>tot\<close>) and \<open>aces\<close>.
\<close>

fun countRanks :: "string list \<Rightarrow> int \<Rightarrow> nat \<Rightarrow> int \<times> nat" where
  "countRanks [] tot aces = (tot, aces)"
| "countRanks (r # ranks) tot aces =
     (if r = ''A'' then countRanks ranks tot (aces + 1)
      else if r \<in> set [''K'', ''Q'', ''J''] then countRanks ranks (tot + 10) aces
      else countRanks ranks (tot + Number_js r) aces)"

text \<open>
  Lines 106-113: \<open>while (aces > 0)\<close>. The test presumes the other aces still to be
  resolved at 1 each (\<open>aces - 1\<close>).
\<close>

fun resolveAces :: "int \<Rightarrow> nat \<Rightarrow> int" where
  "resolveAces tot 0 = tot"
| "resolveAces tot (Suc n) =
     (if tot + 11 + int n \<le> 21 then resolveAces (tot + 11) n
      else resolveAces (tot + 1) n)"

definition revealedRanks :: "UICard list \<Rightarrow> string list" where
  "revealedRanks cards = map rank (filter (\<lambda>c. \<not> isFaceDown c) cards)"

definition calculateHandValue :: "UICard list \<Rightarrow> int option" where
  "calculateHandValue cards =
     (let ranks = revealedRanks cards in
      if length ranks = 0 then None
      else (case countRanks ranks 0 0 of (tot, aces) \<Rightarrow> Some (resolveAces tot aces)))"

section \<open>The store and the payout\<close>

text \<open>
  The game store (\<open>useGameStore\<close>, declared in another module of the repository)
  holds one game object or \<open>null\<close>. Every game object the view builds has an id,
  a status, a player with chips, cards and a bet, and a dealer with chips and cards; chips
  and bets are integers (section 3 of the specification). A card of the store is a string
  such as the rank 5 followed by the clubs symbol; \<open>parseCard\<close> cuts it with
  \<open>slice(0, -1)\<close> and \<open>slice(-1)\<close>, and the model keeps the two parts apart.
\<close>

datatype suit_symbol = Spade | Heart | Diamond | Club

type_synonym card_string = "string \<times> suit_symbol"

record player_store =
  player_chips :: int
  player_cards :: "card_string list"
  player_bet :: int

record dealer_store =
  dealer_chips :: int
  dealer_cards :: "card_string list"

record game_store =
  game_id :: int
  status :: string
  player :: player_store
  dealer :: dealer_store

datatype Outcome = WIN | LOSE | PUSH

text \<open>
  The reason of a result is one of six string literals of the source (in Chinese):
  \<open>Bust\<close> is the literal of the player-bust effect (line 264), the other five are the
  literals of \<open>runDealerTurn\<close> (lines 516-528), in the order of its branches.
\<close>

datatype Reason = Bust | DealerBust | PlayerBust | Tie | Higher | Lower

record GameResult =
  outcome :: Outcome
  reason :: Reason

text \<open>
  \<open>calculatePayout\<close> (lines 13-37). With the store typed as above, of the guard
  \<open>!game || !game.player || typeof game.player.chips !== "number"\<close> only \<open>!game\<close> can
  hold, and \<open>game.player.bet ?? 0\<close> is the bet.
\<close>

definition calculatePayout :: "game_store option \<Rightarrow> GameResult \<Rightarrow> game_store option" where
  "calculatePayout g r =
     (case g of
        None \<Rightarrow> None
      | Some gm \<Rightarrow>
          let b = player_bet (player gm);
              c = player_chips (player gm);
              c' = (if outcome r = WIN then c + b
                    else if outcome r = LOSE then c - b
                    else c)
          in Some (gm\<lparr>player := (player gm)\<lparr>player_chips := c'\<rparr>\<rparr>))"

section \<open>The round controller\<close>

text \<open>
  The state of \<open>GamePage\<close>: its React state variables, the game of the store and the two
  draw indices. \<open>showChips\<close> and \<open>isBlackjack\<close> (with the effect and the timer that
  flash it) only drive the rendering and are left out. The two score effects
  (lines 229-241) set a timer of 320 ms whenever a hand changes and clear the timer set
  before; \<open>playerScoreTimer\<close> and \<open>dealerScoreTimer\<close> hold the milliseconds left of the
  pending timer.
\<close>

datatype Stage = READY | DEALING | PLAYER_TURN | DEALER_TURN | RESULT

record ui =
  selectedBet :: "int option"
  isBetting :: bool
  playerCards :: "UICard list"
  dealerCards :: "UICard list"
  playerScore :: "int option"
  dealerScore :: "int option"
  stage :: Stage
  result :: "GameResult option"
  isPlayerActing :: bool
  isDealerActing :: bool
  game :: "game_store option"
  playerDrawIndex :: nat
  dealerDrawIndex :: nat
  playerScoreTimer :: "nat option"
  dealerScoreTimer :: "nat option"

definition mockPlayerDeck :: "card_string list" where
  "mockPlayerDeck = [(''5'', Club), (''9'', Diamond), (''2'', Spade), (''3'', Heart),
                     (''7'', Club), (''4'', Diamond)]"

definition mockDealerDeck :: "card_string list" where
  "mockDealerDeck = [(''3'', Club), (''4'', Diamond), (''9'', Heart), (''2'', Spade),
                     (''6'', Diamond)]"

fun folderMap :: "suit_symbol \<Rightarrow> string" where
  "folderMap Spade = ''spades''"
| "folderMap Heart = ''hearts''"
| "folderMap Diamond = ''diamonds''"
| "folderMap Club = ''clubs''"

fun fileMap :: "suit_symbol \<Rightarrow> string" where
  "fileMap Spade = ''spade''"
| "fileMap Heart = ''heart''"
| "fileMap Diamond = ''diamond''"
| "fileMap Club = ''club''"

definition parseCard :: "card_string \<Rightarrow> string \<times> string" where
  "parseCard cardStr = (fst cardStr, folderMap (snd cardStr) @ ''/'' @ fileMap (snd cardStr))"

definition drawNextPlayerCard :: "ui \<Rightarrow> card_string \<times> ui" where
  "drawNextPlayerCard s =
     (let idx = playerDrawIndex s mod length mockPlayerDeck in
      (mockPlayerDeck ! idx, s\<lparr>playerDrawIndex := playerDrawIndex s + 1\<rparr>))"

definition drawNextDealerCard :: "ui \<Rightarrow> card_string \<times> ui" where
  "drawNextDealerCard s =
     (let idx = dealerDrawIndex s mod length mockDealerDeck in
      (mockDealerDeck ! idx, s\<lparr>dealerDrawIndex := dealerDrawIndex s + 1\<rparr>))"

subsection \<open>Setters, effects and timers\<close>

text \<open>
  Setting a hand re-runs its score effect: the pending timer is cleared and a new one of
  320 ms is set.
\<close>

definition setPlayerCards :: "UICard list \<Rightarrow> ui \<Rightarrow> ui" where
  "setPlayerCards cs s = s\<lparr>playerCards := cs, playerScoreTimer := Some 320\<rparr>"

definition setDealerCards :: "UICard list \<Rightarrow> ui \<Rightarrow> ui" where
  "setDealerCards cs s = s\<lparr>dealerCards := cs, dealerScoreTimer := Some 320\<rparr>"

text \<open>
  The player-bust effect (lines 257-275). React runs it after every render in which
  \<open>playerScore\<close>, \<open>stage\<close>, \<open>result\<close> or \<open>game\<close> changed, before the next event is
  handled; the model applies it at the end of every synchronous stretch of a handler and
  after every timer that sets the player's score.
\<close>

definition bustEffect :: "ui \<Rightarrow> ui" where
  "bustEffect s =
     (if stage s = PLAYER_TURN \<and> playerScore s \<noteq> None \<and> the (playerScore s) > 21
         \<and> result s = None
      then (let res = \<lparr>outcome = LOSE, reason = Bust\<rparr> in
            s\<lparr>result := Some res,
              game := (if game s \<noteq> None then calculatePayout (game s) res else game s),
              stage := RESULT\<rparr>)
      else s)"

definition firePlayerScore :: "ui \<Rightarrow> ui" where
  "firePlayerScore s =
     bustEffect (s\<lparr>playerScore := calculateHandValue (playerCards s), playerScoreTimer := None\<rparr>)"

definition fireDealerScore :: "ui \<Rightarrow> ui" where
  "fireDealerScore s =
     s\<lparr>dealerScore := calculateHandValue (dealerCards s), dealerScoreTimer := None\<rparr>"

text \<open>
  \<open>delay ms\<close> is the state after \<open>ms\<close> milliseconds in which no handler runs: a score
  timer that is due fires, one that is not has \<open>ms\<close> less to run. The two timers write
  different fields, so their order does not matter.
\<close>

definition delay :: "nat \<Rightarrow> ui \<Rightarrow> ui" where
  "delay ms s =
     (let s1 = (case playerScoreTimer s of
                  None \<Rightarrow> s
                | Some left \<Rightarrow> if left \<le> ms then firePlayerScore s
                              else s\<lparr>playerScoreTimer := Some (left - ms)\<rparr>)
      in case dealerScoreTimer s1 of
           None \<Rightarrow> s1
         | Some left \<Rightarrow> if left \<le> ms then fireDealerScore s1
                       else s1\<lparr>dealerScoreTimer := Some (left - ms)\<rparr>)"

subsection \<open>Hit\<close>

text \<open>
  The guard shared by \<open>handleHit\<close>, \<open>handleDouble\<close> and \<open>handleStand\<close>
  (lines 444-450, 542-548, 600-606).
\<close>

definition actionBlocked :: "ui \<Rightarrow> bool" where
  "actionBlocked s =
     (stage s \<noteq> PLAYER_TURN \<or> isBetting s \<or> isPlayerActing s \<or> isDealerActing s)"

definition handleHit :: "ui \<Rightarrow> ui" where
  "handleHit s =
     (if actionBlocked s then s
      else
        let s1 = s\<lparr>isPlayerActing := True\<rparr> in
        case drawNextPlayerCard s1 of (newCardStr, s2) \<Rightarrow>
        case parseCard newCardStr of (r, su) \<Rightarrow>
        let s3 = setPlayerCards (playerCards s2 @ [\<lparr>rank = r, suit = su, isFaceDown = True\<rparr>]) s2;
            s4 = delay 450 (bustEffect s3);
            s5 = setPlayerCards
                   (map (\<lambda>c. if isFaceDown c then c\<lparr>isFaceDown := False\<rparr> else c) (playerCards s4)) s4;
            s6 = delay 150 (bustEffect s5)
        in bustEffect (s6\<lparr>isPlayerActing := False\<rparr>))"

subsection \<open>The dealer's turn\<close>

text \<open>
  \<open>flipLast\<close> is the map of lines 501-503 and 586-588: the card at index
  \<open>length - 1\<close> is turned face up.
\<close>

definition flipLast :: "UICard list \<Rightarrow> UICard list" where
  "flipLast cs =
     map (\<lambda>(idx, c). if int idx = int (length cs) - 1 then c\<lparr>isFaceDown := False\<rparr> else c)
       (enumerate 0 cs)"

text \<open>
  The loop of \<open>runDealerTurn\<close> (lines 491-508) ends because every card of the dealer's
  mock deck adds at least 2 to the hand counted with its aces at 1 (\<open>hardSum\<close>), which
  the value of the hand never falls below. The lemmas up to the termination proof
  establish that.
\<close>

lemma countRanks_append:
  "countRanks (xs @ ys) t a = (case countRanks xs t a of (t', a') \<Rightarrow> countRanks ys t' a')"
  by (induction xs arbitrary: t a) auto

definition hardSum :: "UICard list \<Rightarrow> int" where
  "hardSum cs = (case countRanks (revealedRanks cs) 0 0 of (t, a) \<Rightarrow> t + int a)"

lemma resolveAces_ge: "t + int n \<le> resolveAces t n"
proof (induction n arbitrary: t)
  case 0
  then show ?case by simp
next
  case (Suc n)
  from Suc [of "t + 11"] Suc [of "t + 1"] show ?case by simp
qed

lemma calculateHandValue_ge_hardSum:
  "calculateHandValue cs = Some v \<Longrightarrow> hardSum cs \<le> v"
  using resolveAces_ge
  by (auto simp: calculateHandValue_def hardSum_def Let_def split: if_splits prod.splits)

lemma flipLast_keep:
  "length cs \<le> n \<Longrightarrow>
   map (\<lambda>(idx, c). if idx = n then f c else c) (enumerate 0 cs) = cs"
proof -
  assume le: "length cs \<le> n"
  have "map (\<lambda>(idx, c). if idx = n then f c else c) (enumerate 0 cs)
      = map snd (enumerate 0 cs)"
    using le by (intro map_cong refl) (auto simp: in_set_enumerate_eq)
  then show ?thesis by simp
qed

lemma flipLast_snoc: "flipLast (cs @ [c]) = cs @ [c\<lparr>isFaceDown := False\<rparr>]"
proof -
  have "int idx = int (length (cs @ [c])) - 1 \<longleftrightarrow> idx = length cs" for idx by auto
  then show ?thesis
    unfolding flipLast_def
    by (simp add: enumerate_append_eq flipLast_keep [of cs "length cs"])
qed

lemma drawn_dealer_rank:
  assumes "drawNextDealerCard s = (str, s1)" and "parseCard str = (r, su)"
  shows "r \<in> set [''3'', ''4'', ''9'', ''2'', ''6'']"
proof -
  have "dealerDrawIndex s mod 5 < 5" by simp
  then have "dealerDrawIndex s mod 5 \<in> {0, 1, 2, 3, 4}" by auto
  with assms show ?thesis
    by (auto simp: drawNextDealerCard_def parseCard_def mockDealerDeck_def Let_def)
qed

lemma hardSum_snoc_dealer:
  assumes "r \<in> set [''3'', ''4'', ''9'', ''2'', ''6'']"
  shows "hardSum (cs @ [\<lparr>rank = r, suit = su, isFaceDown = False\<rparr>]) = hardSum cs + Number_js r"
    and "2 \<le> Number_js r"
  using assms
  by (auto simp: hardSum_def revealedRanks_def countRanks_append Number_js_def split: prod.splits)

lemma calculateHandValue_snoc_Some:
  "\<exists>v. calculateHandValue (cs @ [\<lparr>rank = r, suit = su, isFaceDown = False\<rparr>]) = Some v"
  by (simp add: calculateHandValue_def revealedRanks_def Let_def split: prod.splits)

text \<open>
  Lines 491-508. \<open>localDealerCards\<close> and \<open>dealerValue\<close> are the local variables of
  \<open>runDealerTurn\<close>; each round of the loop draws a card, appends it face down, waits
  450 ms, turns it, waits 450 ms and evaluates the hand again.
\<close>

function dealerLoop :: "UICard list \<Rightarrow> int \<Rightarrow> ui \<Rightarrow> UICard list \<times> int \<times> ui" where
  "dealerLoop localDealerCards dealerValue s =
     (if dealerValue < 17 then
        (case drawNextDealerCard s of (newCardStr, s1) \<Rightarrow>
         case parseCard newCardStr of (r, su) \<Rightarrow>
           let local1 = localDealerCards @ [\<lparr>rank = r, suit = su, isFaceDown = True\<rparr>];
               s2 = delay 450 (bustEffect (setDealerCards local1 s1));
               local2 = flipLast local1;
               s3 = delay 450 (bustEffect (setDealerCards local2 s2));
               dealerValue' = (case calculateHandValue local2 of None \<Rightarrow> dealerValue | Some v \<Rightarrow> v)
           in dealerLoop local2 dealerValue' s3)
      else (localDealerCards, dealerValue, s))"
  by pat_completeness auto
termination
proof (relation "measure (\<lambda>(l, dv, s). if dv < 17 then 1 + nat (17 - hardSum l) else 0)", goal_cases)
  case 1
  then show ?case by simp
next
  case (2 localDealerCards dealerValue s newCardStr s1 r su local1 s2 local2 s3 dealerValue')
  have rk: "r \<in> set [''3'', ''4'', ''9'', ''2'', ''6'']"
    using 2 drawn_dealer_rank by metis
  have l2: "local2 = localDealerCards @ [\<lparr>rank = r, suit = su, isFaceDown = False\<rparr>]"
    using 2 by (simp add: flipLast_snoc)
  obtain v where v: "calculateHandValue local2 = Some v"
    unfolding l2 using calculateHandValue_snoc_Some by blast
  have hs: "hardSum local2 = hardSum localDealerCards + Number_js r" "2 \<le> Number_js r"
    unfolding l2 using hardSum_snoc_dealer [OF rk] by auto
  have "hardSum local2 \<le> v" using v by (rule calculateHandValue_ge_hardSum)
  with hs v 2 show ?case by auto
qed

declare dealerLoop.simps [simp del]

text \<open>
  Lines 511-529: the outcome and its reason, from the two values.
\<close>

definition decideOutcome :: "int \<Rightarrow> int \<Rightarrow> GameResult" where
  "decideOutcome playerValue dealerValue =
     (if dealerValue > 21 \<and> playerValue \<le> 21 then \<lparr>outcome = WIN, reason = DealerBust\<rparr>
      else if playerValue > 21 \<and> dealerValue \<le> 21 then \<lparr>outcome = LOSE, reason = PlayerBust\<rparr>
      else if playerValue = dealerValue then \<lparr>outcome = PUSH, reason = Tie\<rparr>
      else if playerValue > dealerValue then \<lparr>outcome = WIN, reason = Higher\<rparr>
      else \<lparr>outcome = LOSE, reason = Lower\<rparr>)"

text \<open>
  \<open>runDealerTurn\<close> (lines 471-538) is a closure of the render in which the handler that
  calls it was created: the \<open>game\<close> and the \<open>dealerCards\<close> it reads are those of that
  render, passed here as \<open>game0\<close> and \<open>dealerCards0\<close>, while its setters act on the
  current state. \<open>dealerPlay\<close> is the function up to the end of the loop (lines 472-508)
  and returns the local hand, the dealer's value and the state.
\<close>

definition dealerPlay :: "UICard list \<Rightarrow> ui \<Rightarrow> UICard list \<times> int \<times> ui" where
  "dealerPlay dealerCards0 s =
     (let s1 = s\<lparr>stage := DEALER_TURN, isDealerActing := True\<rparr>;
          local0 = map (\<lambda>c. c\<lparr>isFaceDown := False\<rparr>) (map (\<lambda>c. c) dealerCards0);
          s2 = delay 650 (bustEffect (setDealerCards local0 s1));
          dealerValue = (case calculateHandValue local0 of None \<Rightarrow> 0 | Some v \<Rightarrow> v)
      in dealerLoop local0 dealerValue s2)"

definition playerValueOf :: "UICard list \<Rightarrow> int" where
  "playerValueOf playerCardsSnapshot =
     (case calculateHandValue (filter (\<lambda>c. \<not> isFaceDown c) playerCardsSnapshot) of
        None \<Rightarrow> 0
      | Some v \<Rightarrow> v)"

definition runDealerTurn :: "game_store option \<Rightarrow> UICard list \<Rightarrow> UICard list \<Rightarrow> ui \<Rightarrow> ui" where
  "runDealerTurn game0 dealerCards0 playerCardsSnapshot s =
     (case dealerPlay dealerCards0 s of (localDealerCards, dealerValue, s3) \<Rightarrow>
        let res = decideOutcome (playerValueOf playerCardsSnapshot) dealerValue in
        bustEffect (s3\<lparr>result := Some res,
                       game := calculatePayout game0 res,
                       stage := RESULT,
                       isDealerActing := False\<rparr>))"

subsection \<open>Stand and double\<close>

definition handleStand :: "ui \<Rightarrow> ui" where
  "handleStand s =
     (if actionBlocked s then s
      else runDealerTurn (game s) (dealerCards s) (map (\<lambda>c. c) (playerCards s)) s)"

text \<open>
  Line 555: \<open>game.player.bet || selectedBet || 0\<close>; a number is falsy when it is 0.
\<close>

definition currentBetOf :: "game_store \<Rightarrow> ui \<Rightarrow> int" where
  "currentBetOf g s =
     (if player_bet (player g) \<noteq> 0 then player_bet (player g)
      else (case selectedBet s of
              None \<Rightarrow> 0
            | Some b \<Rightarrow> if b \<noteq> 0 then b else 0))"

text \<open>
  Lines 564-593 of \<open>handleDouble\<close>: the bet is set, one card is drawn, appended face
  down and turned after 450 ms; 150 ms later the busy flag is cleared. The result is the
  local copy of the player's hand and the state in which \<open>runDealerTurn\<close> is called.
\<close>

definition doubleDraw :: "game_store \<Rightarrow> ui \<Rightarrow> UICard list \<times> ui" where
  "doubleDraw g s =
     (let newBet = currentBetOf g s * 2;
          s1 = s\<lparr>isPlayerActing := True,
                 game := Some (g\<lparr>player := (player g)\<lparr>player_bet := newBet\<rparr>\<rparr>),
                 selectedBet := Some newBet\<rparr>;
          local0 = map (\<lambda>c. c) (playerCards s)
      in case drawNextPlayerCard s1 of (newCardStr, s2) \<Rightarrow>
         case parseCard newCardStr of (r, su) \<Rightarrow>
         let local1 = local0 @ [\<lparr>rank = r, suit = su, isFaceDown = True\<rparr>];
             s3 = delay 450 (bustEffect (setPlayerCards local1 s2));
             local2 = flipLast local1;
             s4 = delay 150 (bustEffect (setPlayerCards local2 s3))
         in (local2, s4\<lparr>isPlayerActing := False\<rparr>))"

definition handleDouble :: "ui \<Rightarrow> ui" where
  "handleDouble s =
     (if actionBlocked s then s
      else case game s of
        None \<Rightarrow> s
      | Some g \<Rightarrow>
          if length (filter (\<lambda>c. \<not> isFaceDown c) (playerCards s)) \<noteq> 2 then s
          else if currentBetOf g s * 2 > player_chips (player g) then s
          else (case doubleDraw g s of (localPlayerCards, s5) \<Rightarrow>
                  runDealerTurn (Some g) (dealerCards s) localPlayerCards s5))"

text \<open>
  The only output of \<open>handleDouble\<close> besides the state is the \<open>alert\<close> of line 560.
\<close>

definition handleDouble_alerts :: "ui \<Rightarrow> bool" where
  "handleDouble_alerts s =
     (if actionBlocked s then False
      else case game s of
        None \<Rightarrow> False
      | Some g \<Rightarrow>
          if length (filter (\<lambda>c. \<not> isFaceDown c) (playerCards s)) \<noteq> 2 then False
          else currentBetOf g s * 2 > player_chips (player g))"

subsection \<open>Reset and bet\<close>

definition handleReset :: "ui \<Rightarrow> ui" where
  "handleReset s =
     (let s1 = setDealerCards [] (setPlayerCards [] s);
          s2 = s1\<lparr>playerScore := None, dealerScore := None, selectedBet := None, result := None,
                  stage := READY, isBetting := False, isPlayerActing := False,
                  isDealerActing := False, playerDrawIndex := 0, dealerDrawIndex := 0\<rparr>;
          s3 = (case game s of
                  None \<Rightarrow> s2
                | Some g \<Rightarrow>
                    s2\<lparr>game := Some (g\<lparr>status := ''NEW'',
                                          player := (player g)\<lparr>player_bet := 0\<rparr>\<rparr>)\<rparr>)
      in bustEffect s3)"

text \<open>
  \<open>handleBet\<close> (lines 310-441), without the chip animation. After 650 ms the mocked
  first deal is stored and the four cards are dealt by timers: the player's first card at
  0 ms (turned at 450), the dealer's first at 900 (turned at 1350), the player's second at
  1800 (turned at 2250), the dealer's second, face down, at 2700, and the player's turn
  begins at 3200.
\<close>

definition handleBet :: "int \<Rightarrow> ui \<Rightarrow> ui" where
  "handleBet amount s =
     (case game s of
        None \<Rightarrow> s
      | Some g \<Rightarrow>
        if isBetting s \<or> (selectedBet s \<noteq> None \<and> the (selectedBet s) \<noteq> 0) then s
        else
          let s1 = s\<lparr>isBetting := True, selectedBet := Some amount, stage := DEALING,
                     result := None, playerDrawIndex := 0, dealerDrawIndex := 0,
                     game := Some (g\<lparr>player := (player g)\<lparr>player_bet := amount\<rparr>,
                                     status := ''BET''\<rparr>)\<rparr>;
              s2 = delay 650 (bustEffect s1);
              mockResponse =
                \<lparr>game_id = game_id g, status = ''BET'',
                 player = \<lparr>player_chips = player_chips (player g),
                           player_cards = [(''A'', Heart), (''K'', Spade)],
                           player_bet = amount\<rparr>,
                 dealer = \<lparr>dealer_chips = dealer_chips (dealer g),
                           dealer_cards = [(''10'', Diamond), (''7'', Club)]\<rparr>\<rparr>;
              p1 = player_cards (player mockResponse) ! 0;
              d1 = dealer_cards (dealer mockResponse) ! 0;
              p2 = player_cards (player mockResponse) ! 1;
              d2 = dealer_cards (dealer mockResponse) ! 1;
              s3 = bustEffect
                     ((setDealerCards [] (setPlayerCards [] (s2\<lparr>game := Some mockResponse\<rparr>)))
                        \<lparr>isBetting := False\<rparr>);
              s4 = delay 450 (bustEffect (setPlayerCards
                     [\<lparr>rank = fst (parseCard p1), suit = snd (parseCard p1), isFaceDown = True\<rparr>] s3));
              s5 = delay 450 (bustEffect (setPlayerCards
                     (map (\<lambda>c. c\<lparr>isFaceDown := False\<rparr>) (playerCards s4)) s4));
              s6 = delay 450 (bustEffect (setDealerCards
                     [\<lparr>rank = fst (parseCard d1), suit = snd (parseCard d1), isFaceDown = True\<rparr>] s5));
              s7 = delay 450 (bustEffect (setDealerCards
                     (map (\<lambda>c. c\<lparr>isFaceDown := False\<rparr>) (dealerCards s6)) s6));
              s8 = delay 450 (bustEffect (setPlayerCards
                     (playerCards s7 @
                        [\<lparr>rank = fst (parseCard p2), suit = snd (parseCard p2), isFaceDown = True\<rparr>]) s7));
              s9 = delay 450 (bustEffect (setPlayerCards
                     (map (\<lambda>(idx, c). if idx = (1::nat) then c\<lparr>isFaceDown := False\<rparr> else c)
                        (enumerate 0 (playerCards s8))) s8));
              s10 = delay 500 (bustEffect (setDealerCards
                     (dealerCards s9 @
                        [\<lparr>rank = fst (parseCard d2), suit = snd (parseCard d2), isFaceDown = True\<rparr>]) s9))
          in bustEffect (s10\<lparr>stage := PLAYER_TURN\<rparr>))"

subsection \<open>Runs of the controller\<close>

text \<open>
  The state after the first render and its effect (lines 217-226), which stores a new
  game with 10000 chips.
\<close>

definition initial :: ui where
  "initial =
     \<lparr>selectedBet = None, isBetting = False, playerCards = [], dealerCards = [],
      playerScore = None, dealerScore = None, stage = READY, result = None,
      isPlayerActing = False, isDealerActing = False,
      game = Some \<lparr>game_id = 1, status = ''NEW'',
                   player = \<lparr>player_chips = 10000, player_cards = [], player_bet = 0\<rparr>,
                   dealer = \<lparr>dealer_chips = 999999, dealer_cards = []\<rparr>\<rparr>,
      playerDrawIndex = 0, dealerDrawIndex = 0,
      playerScoreTimer = Some 320, dealerScoreTimer = Some 320\<rparr>"

text \<open>
  The states the page can be in when it handles an event: from the initial state, any
  sequence of bets (of one of the four chips), hits, stands, doubles and resets, each run
  to its end, with any time passing between them. The handlers' own guards, not the
  buttons, decide here whether an action is taken, so the set is if anything too large.
\<close>

inductive reachable :: "ui \<Rightarrow> bool" where
  start: "reachable initial"
| wait: "reachable s \<Longrightarrow> reachable (delay ms s)"
| bet: "reachable s \<Longrightarrow> amount \<in> set [100, 500, 1000, 5000] \<Longrightarrow> reachable (handleBet amount s)"
| hit: "reachable s \<Longrightarrow> reachable (handleHit s)"
| stand: "reachable s \<Longrightarrow> reachable (handleStand s)"
| double: "reachable s \<Longrightarrow> reachable (handleDouble s)"
| reset: "reachable s \<Longrightarrow> reachable (handleReset s)"

section \<open>The words of the specification\<close>

text \<open>
  The ranks of section 3 of the specification: 2 to 10, J, Q, K and A.
\<close>

definition isRank :: "string \<Rightarrow> bool" where
  "isRank r = (r \<in> set [''A'', ''K'', ''Q'', ''J'', ''10'', ''9'', ''8'', ''7'', ''6'',
                        ''5'', ''4'', ''3'', ''2''])"

text \<open>
  The hands of this game hold the thirteen ranks only (section 3 of the specification);
  a face-down card is never read by the evaluator, so only the revealed cards matter.
\<close>

definition validHand :: "UICard list \<Rightarrow> bool" where
  "validHand cs = list_all (\<lambda>c. isFaceDown c \<or> isRank (rank c)) cs"

text \<open>
  Section 4.1 of the specification: numeric ranks contribute their face value, J/Q/K
  contribute 10; the non-aces are summed and the aces counted, and each ace in turn adds
  11 if the running total, with the remaining aces still presumed at 11, stays at most
  21, and 1 otherwise. \<open>spec_aces t n\<close> resolves \<open>n\<close> aces on the running total \<open>t\<close>.
\<close>

definition spec_face_value :: "string \<Rightarrow> int" where
  "spec_face_value r =
     (case map_of [(''2'', 2), (''3'', 3), (''4'', 4), (''5'', 5), (''6'', 6), (''7'', 7),
                   (''8'', 8), (''9'', 9), (''10'', 10), (''J'', 10), (''Q'', 10), (''K'', 10)] r of
        Some v \<Rightarrow> v
      | None \<Rightarrow> 0)"

fun spec_aces :: "int \<Rightarrow> nat \<Rightarrow> int" where
  "spec_aces t 0 = t"
| "spec_aces t (Suc n) =
     (if t + 11 + 11 * int n \<le> 21 then spec_aces (t + 11) n else spec_aces (t + 1) n)"

definition nonAceSum :: "string list \<Rightarrow> int" where
  "nonAceSum ranks = sum_list (map spec_face_value (filter (\<lambda>r. r \<noteq> ''A'') ranks))"

definition aceCount :: "string list \<Rightarrow> nat" where
  "aceCount ranks = length (filter (\<lambda>r. r = ''A'') ranks)"

definition spec_evaluate :: "string list \<Rightarrow> int option" where
  "spec_evaluate ranks =
     (if ranks = [] then None else Some (spec_aces (nonAceSum ranks) (aceCount ranks)))"

text \<open>
  The closed form a reader of the evaluator may take for it: with \<open>s\<close> the sum of the
  non-ace face values and \<open>a\<close> the number of aces, \<open>s + a + 10\<close> when that is at most
  21 and \<open>s + a\<close> otherwise.
\<close>

definition oneAceHigh :: "string list \<Rightarrow> int" where
  "oneAceHigh ranks =
     (let s = nonAceSum ranks; a = int (aceCount ranks) in
      if s + a + 10 \<le> 21 then s + a + 10 else s + a)"

text \<open>
  The outcome rule as the specification words it (section 4.2): five rules, each a
  condition on the player's and the dealer's score with its outcome, of which the first
  that applies decides.
\<close>

definition spec_outcome_rules :: "((int \<Rightarrow> int \<Rightarrow> bool) \<times> Outcome) list" where
  "spec_outcome_rules =
     [(\<lambda>p d. d > 21 \<and> p \<le> 21, WIN),
      (\<lambda>p d. p > 21 \<and> d \<le> 21, LOSE),
      (\<lambda>p d. p = d, PUSH),
      (\<lambda>p d. p > d, WIN),
      (\<lambda>p d. True, LOSE)]"

fun firstMatch :: "((int \<Rightarrow> int \<Rightarrow> bool) \<times> Outcome) list \<Rightarrow> int \<Rightarrow> int \<Rightarrow> Outcome option" where
  "firstMatch [] p d = None"
| "firstMatch ((applies, out) # rules) p d =
     (if applies p d then Some out else firstMatch rules p d)"

section \<open>Notions used in the proofs\<close>

text \<open>
  Two conditions on a state. \<open>roundOpen\<close>: if it is the player's turn, no result has
  been set. \<open>notBust\<close>: moreover the score in \<open>playerScore\<close> is not above 21. The
  second holds after every run of the bust effect on a state with the first.
\<close>

definition roundOpen :: "ui \<Rightarrow> bool" where
  "roundOpen s = (stage s \<noteq> PLAYER_TURN \<or> result s = None)"

definition notBust :: "ui \<Rightarrow> bool" where
  "notBust s = (stage s \<noteq> PLAYER_TURN
      \<or> (result s = None \<and> (case playerScore s of None \<Rightarrow> True | Some q \<Rightarrow> q \<le> 21)))"

text \<open>
  While the cards are dealt the stage is DEALING and no result is set, so the bust effect
  cannot run.
\<close>

definition dealing :: "ui \<Rightarrow> bool" where
  "dealing t = (stage t = DEALING \<and> result t = None)"

text \<open>
  The dealer's half of \<open>delay\<close>.
\<close>

definition dealerTick :: "nat \<Rightarrow> ui \<Rightarrow> ui" where
  "dealerTick ms s =
     (case dealerScoreTimer s of
        None \<Rightarrow> s
      | Some left \<Rightarrow> if left \<le> ms then fireDealerScore s
                    else s\<lparr>dealerScoreTimer := Some (left - ms)\<rparr>)"

text \<open>
  The dealer's loop in terms of the draw index: \<open>dealerValueOf\<close> is the value the loop
  tests, \<open>dealerCardAt i\<close> the card of the mock deck at draw index \<open>i\<close>, face up,
  \<open>dealerDraws i n\<close> the \<open>n\<close> cards from index \<open>i\<close> on, \<open>dealerRound\<close> what one round
  of the loop does to the state, and \<open>dealerPoints\<close> the points of the card at an index.
  \<open>playerCardAt\<close> is the card of the player's mock deck at an index.
\<close>

definition dealerValueOf :: "UICard list \<Rightarrow> int" where
  "dealerValueOf cs = (case calculateHandValue cs of None \<Rightarrow> 0 | Some v \<Rightarrow> v)"

definition dealerCardAt :: "nat \<Rightarrow> UICard" where
  "dealerCardAt i =
     (case parseCard (mockDealerDeck ! (i mod length mockDealerDeck)) of
        (r, su) \<Rightarrow> \<lparr>rank = r, suit = su, isFaceDown = False\<rparr>)"

definition dealerDraws :: "nat \<Rightarrow> nat \<Rightarrow> UICard list" where
  "dealerDraws i n = map (\<lambda>k. dealerCardAt (i + k)) [0..<n]"

definition dealerRound :: "UICard list \<Rightarrow> ui \<Rightarrow> ui" where
  "dealerRound l s =
     (let c = dealerCardAt (dealerDrawIndex s);
          s1 = s\<lparr>dealerDrawIndex := dealerDrawIndex s + 1\<rparr>;
          s2 = delay 450 (bustEffect (setDealerCards (l @ [c\<lparr>isFaceDown := True\<rparr>]) s1))
      in delay 450 (bustEffect (setDealerCards (l @ [c]) s2)))"

definition dealerPoints :: "nat \<Rightarrow> int" where
  "dealerPoints j = [3, 4, 9, 2, 6] ! (j mod 5)"

definition playerCardAt :: "nat \<Rightarrow> UICard" where
  "playerCardAt i =
     (case parseCard (mockPlayerDeck ! (i mod length mockPlayerDeck)) of
        (r, su) \<Rightarrow> \<lparr>rank = r, suit = su, isFaceDown = False\<rparr>)"

text \<open>
  States to run the handlers on: a player's turn with the given hands, chips and bet, the
  scores up to date and no timer pending.
\<close>

definition faceUp :: "string \<Rightarrow> UICard" where
  "faceUp r = \<lparr>rank = r, suit = ''spades/spade'', isFaceDown = False\<rparr>"

definition faceDown :: "string \<Rightarrow> UICard" where
  "faceDown r = \<lparr>rank = r, suit = ''spades/spade'', isFaceDown = True\<rparr>"

definition playerTurn :: "UICard list \<Rightarrow> UICard list \<Rightarrow> int \<Rightarrow> int \<Rightarrow> ui" where
  "playerTurn pcs dcs c b =
     \<lparr>selectedBet = Some b, isBetting = False, playerCards = pcs, dealerCards = dcs,
      playerScore = calculateHandValue pcs, dealerScore = calculateHandValue dcs,
      stage = PLAYER_TURN, result = None, isPlayerActing = False, isDealerActing = False,
      game = Some \<lparr>game_id = 1, status = ''BET'',
                   player = \<lparr>player_chips = c, player_cards = [], player_bet = b\<rparr>,
                   dealer = \<lparr>dealer_chips = 999999, dealer_cards = []\<rparr>\<rparr>,
      playerDrawIndex = 0, dealerDrawIndex = 0,
      playerScoreTimer = None, dealerScoreTimer = None\<rparr>"

section \<open>Properties of the hand evaluator\<close>

lemma Number_js_rank:
  "isRank r \<Longrightarrow> r \<noteq> ''A'' \<Longrightarrow> r \<notin> set [''K'', ''Q'', ''J''] \<Longrightarrow> Number_js r = spec_face_value r"
  by (auto simp: isRank_def Number_js_def spec_face_value_def)

lemma spec_face_value_court:
  "r \<in> set [''K'', ''Q'', ''J''] \<Longrightarrow> spec_face_value r = 10"
  by (auto simp: spec_face_value_def)

lemma spec_face_value_nonneg: "0 \<le> spec_face_value r"
  by (simp add: spec_face_value_def split: option.splits)

lemma countRanks_closed:
  "\<forall>r \<in> set ranks. isRank r \<Longrightarrow>
   countRanks ranks tot aces = (tot + nonAceSum ranks, aces + aceCount ranks)"
proof (induction ranks arbitrary: tot aces)
  case Nil
  then show ?case by (simp add: nonAceSum_def aceCount_def)
next
  case (Cons r ranks)
  then have ih: "\<And>t a. countRanks ranks t a = (t + nonAceSum ranks, a + aceCount ranks)"
    by simp
  from Cons.prems have rk: "isRank r" by simp
  show ?case
  proof (cases "r = ''A''")
    case True
    then show ?thesis by (simp add: ih nonAceSum_def aceCount_def)
  next
    case False
    show ?thesis
    proof (cases "r \<in> set [''K'', ''Q'', ''J'']")
      case True
      with False spec_face_value_court [OF True] show ?thesis
        by (simp add: ih nonAceSum_def aceCount_def)
    next
      case court: False
      with False Number_js_rank [OF rk False court] show ?thesis
        by (simp add: ih nonAceSum_def aceCount_def)
    qed
  qed
qed

lemma nonAceSum_nonneg: "0 \<le> nonAceSum ranks"
  unfolding nonAceSum_def by (rule sum_list_nonneg) (auto simp: spec_face_value_nonneg)

lemma resolveAces_hard: "11 \<le> t \<Longrightarrow> resolveAces t n = t + int n"
  by (induction n arbitrary: t) auto

lemma resolveAces_over: "21 < t + 10 + int n \<Longrightarrow> resolveAces t n = t + int n"
  by (induction n arbitrary: t) auto

lemma resolveAces_closed:
  "0 \<le> t \<Longrightarrow>
   resolveAces t (Suc n) = (if t + int (Suc n) + 10 \<le> 21 then t + int (Suc n) + 10 else t + int (Suc n))"
  by (simp add: resolveAces_hard resolveAces_over)

lemma spec_aces_over: "21 < t + 10 + int n \<Longrightarrow> spec_aces t n = t + int n"
  by (induction n arbitrary: t) auto

lemma spec_aces_closed:
  "0 \<le> t \<Longrightarrow>
   spec_aces t (Suc n) = (if t + int (Suc n) + 10 \<le> 21 then t + int (Suc n) + 10 else t + int (Suc n))"
proof (induction n arbitrary: t)
  case 0
  then show ?case by simp
next
  case (Suc n)
  from Suc.prems have "\<not> t + 11 + 11 * int (Suc n) \<le> 21" by simp
  then have "spec_aces t (Suc (Suc n)) = spec_aces (t + 1) (Suc n)" by simp
  also have "\<dots> = (if (t + 1) + int (Suc n) + 10 \<le> 21 then (t + 1) + int (Suc n) + 10
                    else (t + 1) + int (Suc n))"
    using Suc.prems by (intro Suc.IH) simp
  finally show ?case by simp
qed

lemma resolveAces_spec_aces:
  assumes "0 \<le> t"
  shows "resolveAces t n = spec_aces t n"
proof (cases n)
  case 0
  then show ?thesis by simp
next
  case (Suc m)
  show ?thesis
    unfolding Suc resolveAces_closed [OF assms] spec_aces_closed [OF assms] ..
qed

lemma validHand_revealed: "validHand cs \<Longrightarrow> \<forall>r \<in> set (revealedRanks cs). isRank r"
  by (auto simp: validHand_def revealedRanks_def list_all_iff)

lemma calculateHandValue_closed:
  assumes "validHand cs"
  shows "calculateHandValue cs =
           (if revealedRanks cs = [] then None
            else Some (resolveAces (nonAceSum (revealedRanks cs)) (aceCount (revealedRanks cs))))"
  using countRanks_closed [OF validHand_revealed [OF assms], of 0 0]
  by (simp add: calculateHandValue_def Let_def)

lemma calculateHandValue_None: "calculateHandValue cs = None \<longleftrightarrow> list_all isFaceDown cs"
  by (auto simp: calculateHandValue_def revealedRanks_def Let_def list_all_iff filter_empty_conv
      split: prod.splits)

text \<open>
  C1. The evaluator reads only the cards that are not face down and returns \<open>None\<close>
  exactly when there is none; otherwise its result is the sum the specification
  describes: face values for the numeric ranks, 10 for J/Q/K, and for each ace 11 unless
  that would push the total over 21 with the aces still to come presumed at 11, else 1.
  The source presumes the aces still to come at 1 and so gives the 11 to the first ace
  where the specification gives it to the last; the totals are the same.
\<close>

theorem calculateHandValue_refines_spec:
  assumes "validHand cs"
  shows "calculateHandValue cs = spec_evaluate (map rank (filter (\<lambda>c. \<not> isFaceDown c) cs))
       \<and> (calculateHandValue cs = None \<longleftrightarrow> list_all isFaceDown cs)"
proof -
  have "resolveAces (nonAceSum rs) n = spec_aces (nonAceSum rs) n" for rs n
    by (rule resolveAces_spec_aces) (rule nonAceSum_nonneg)
  then have "calculateHandValue cs = spec_evaluate (revealedRanks cs)"
    by (simp add: calculateHandValue_closed [OF assms] spec_evaluate_def)
  then have "calculateHandValue cs = spec_evaluate (map rank (filter (\<lambda>c. \<not> isFaceDown c) cs))"
    by (simp add: revealedRanks_def)
  then show ?thesis
    using calculateHandValue_None [of cs] by blast
qed

theorem calculateHandValue_refines_spec_witness:
  "calculateHandValue
     [\<lparr>rank = ''A'', suit = ''hearts/heart'', isFaceDown = False\<rparr>,
      \<lparr>rank = ''7'', suit = ''clubs/club'', isFaceDown = True\<rparr>,
      \<lparr>rank = ''K'', suit = ''spades/spade'', isFaceDown = False\<rparr>,
      \<lparr>rank = ''A'', suit = ''clubs/club'', isFaceDown = False\<rparr>]
   = spec_evaluate [''A'', ''K'', ''A'']
   \<and> spec_evaluate [''A'', ''K'', ''A''] = Some 12"
  using calculateHandValue_refines_spec
    [of "[\<lparr>rank = ''A'', suit = ''hearts/heart'', isFaceDown = False\<rparr>,
          \<lparr>rank = ''7'', suit = ''clubs/club'', isFaceDown = True\<rparr>,
          \<lparr>rank = ''K'', suit = ''spades/spade'', isFaceDown = False\<rparr>,
          \<lparr>rank = ''A'', suit = ''clubs/club'', isFaceDown = False\<rparr>]"]
  by (simp add: validHand_def isRank_def spec_evaluate_def nonAceSum_def aceCount_def
      spec_face_value_def)

text \<open>
  C10, as stated: the evaluator returns \<open>s + a + 10\<close> when that is at most 21, for every
  revealed sequence. A hand without an ace refutes it: a single revealed 5 is worth 5,
  not 15.
\<close>

theorem oneAceHigh_counterexample:
  "calculateHandValue [\<lparr>rank = ''5'', suit = ''clubs/club'', isFaceDown = False\<rparr>]
     \<noteq> Some (oneAceHigh (revealedRanks [\<lparr>rank = ''5'', suit = ''clubs/club'', isFaceDown = False\<rparr>]))"
  by (simp add: calculateHandValue_def revealedRanks_def Number_js_def oneAceHigh_def
      nonAceSum_def aceCount_def spec_face_value_def)

lemma nonAceSum_mset: "mset rs = mset rs' \<Longrightarrow> nonAceSum rs = nonAceSum rs'"
proof -
  assume "mset rs = mset rs'"
  then have "mset (map spec_face_value (filter (\<lambda>r. r \<noteq> ''A'') rs))
           = mset (map spec_face_value (filter (\<lambda>r. r \<noteq> ''A'') rs'))"
    by (metis mset_filter mset_map)
  then show ?thesis
    unfolding nonAceSum_def by (metis sum_mset_sum_list)
qed

lemma aceCount_mset: "mset rs = mset rs' \<Longrightarrow> aceCount rs = aceCount rs'"
proof -
  assume "mset rs = mset rs'"
  then have "mset (filter (\<lambda>r. r = ''A'') rs) = mset (filter (\<lambda>r. r = ''A'') rs')"
    by (metis mset_filter)
  then show ?thesis
    unfolding aceCount_def by (metis size_mset)
qed

text \<open>
  C10, amended: the closed form holds for the hands with at least one revealed ace, so at
  most one ace counts 11; a hand with revealed cards and no ace is worth the sum of its
  face values; and the value depends on the revealed ranks as a multiset only, not on
  their order.
\<close>

theorem calculateHandValue_one_ace_high:
  assumes "validHand cs"
  shows "(0 < aceCount (revealedRanks cs) \<longrightarrow>
            calculateHandValue cs = Some (oneAceHigh (revealedRanks cs)))
       \<and> (revealedRanks cs \<noteq> [] \<and> aceCount (revealedRanks cs) = 0 \<longrightarrow>
            calculateHandValue cs = Some (nonAceSum (revealedRanks cs)))
       \<and> (\<forall>cs'. validHand cs' \<and> mset (revealedRanks cs') = mset (revealedRanks cs) \<longrightarrow>
            calculateHandValue cs' = calculateHandValue cs)"
proof (intro conjI impI allI)
  assume a: "0 < aceCount (revealedRanks cs)"
  then obtain n where n: "aceCount (revealedRanks cs) = Suc n"
    by (cases "aceCount (revealedRanks cs)") auto
  from a have ne: "revealedRanks cs \<noteq> []" by (auto simp: aceCount_def)
  have "resolveAces (nonAceSum (revealedRanks cs)) (Suc n) = oneAceHigh (revealedRanks cs)"
    unfolding resolveAces_closed [OF nonAceSum_nonneg] by (simp add: oneAceHigh_def n)
  then show "calculateHandValue cs = Some (oneAceHigh (revealedRanks cs))"
    by (simp add: calculateHandValue_closed [OF assms] ne n del: resolveAces.simps)
next
  assume "revealedRanks cs \<noteq> [] \<and> aceCount (revealedRanks cs) = 0"
  then show "calculateHandValue cs = Some (nonAceSum (revealedRanks cs))"
    by (simp add: calculateHandValue_closed [OF assms])
next
  fix cs'
  assume h: "validHand cs' \<and> mset (revealedRanks cs') = mset (revealedRanks cs)"
  then have "nonAceSum (revealedRanks cs') = nonAceSum (revealedRanks cs)"
    and "aceCount (revealedRanks cs') = aceCount (revealedRanks cs)"
    and "revealedRanks cs' = [] \<longleftrightarrow> revealedRanks cs = []"
    by (auto dest: nonAceSum_mset aceCount_mset mset_eq_length)
  with h show "calculateHandValue cs' = calculateHandValue cs"
    by (simp add: calculateHandValue_closed assms)
qed

theorem calculateHandValue_one_ace_high_witness:
  "calculateHandValue
     [\<lparr>rank = ''A'', suit = ''hearts/heart'', isFaceDown = False\<rparr>,
      \<lparr>rank = ''9'', suit = ''clubs/club'', isFaceDown = False\<rparr>,
      \<lparr>rank = ''A'', suit = ''spades/spade'', isFaceDown = False\<rparr>] = Some 21
   \<and> calculateHandValue
     [\<lparr>rank = ''9'', suit = ''clubs/club'', isFaceDown = False\<rparr>,
      \<lparr>rank = ''A'', suit = ''spades/spade'', isFaceDown = False\<rparr>,
      \<lparr>rank = ''A'', suit = ''hearts/heart'', isFaceDown = False\<rparr>] = Some 21"
proof -
  let ?cs = "[\<lparr>rank = ''A'', suit = ''hearts/heart'', isFaceDown = False\<rparr>,
      \<lparr>rank = ''9'', suit = ''clubs/club'', isFaceDown = False\<rparr>,
      \<lparr>rank = ''A'', suit = ''spades/spade'', isFaceDown = False\<rparr>]"
  let ?cs' = "[\<lparr>rank = ''9'', suit = ''clubs/club'', isFaceDown = False\<rparr>,
      \<lparr>rank = ''A'', suit = ''spades/spade'', isFaceDown = False\<rparr>,
      \<lparr>rank = ''A'', suit = ''hearts/heart'', isFaceDown = False\<rparr>]"
  have v: "validHand ?cs" and v': "validHand ?cs'"
    by (simp_all add: validHand_def isRank_def)
  have a: "0 < aceCount (revealedRanks ?cs)"
    by (simp add: aceCount_def revealedRanks_def)
  have m: "mset (revealedRanks ?cs') = mset (revealedRanks ?cs)"
    by (simp add: revealedRanks_def)
  from calculateHandValue_one_ace_high [OF v] a
  have 1: "calculateHandValue ?cs = Some (oneAceHigh (revealedRanks ?cs))" by blast
  from calculateHandValue_one_ace_high [OF v] v' m
  have 2: "calculateHandValue ?cs' = calculateHandValue ?cs" by blast
  have "oneAceHigh (revealedRanks ?cs) = 21"
    by (simp add: oneAceHigh_def revealedRanks_def nonAceSum_def aceCount_def spec_face_value_def)
  with 1 2 show ?thesis by simp
qed

section \<open>Properties of the payout\<close>

text \<open>
  C3. Settlement adds the bet to the chips on WIN, subtracts it on LOSE and leaves the
  chips on PUSH, and changes no other field of the game; with 1000 chips and a bet of 100
  the new balance is 1100, 900 and 1000.
\<close>

theorem calculatePayout_settles:
  "calculatePayout (Some g) \<lparr>outcome = WIN, reason = why\<rparr>
     = Some (g\<lparr>player := (player g)\<lparr>player_chips := player_chips (player g) + player_bet (player g)\<rparr>\<rparr>)
   \<and> calculatePayout (Some g) \<lparr>outcome = LOSE, reason = why\<rparr>
     = Some (g\<lparr>player := (player g)\<lparr>player_chips := player_chips (player g) - player_bet (player g)\<rparr>\<rparr>)
   \<and> calculatePayout (Some g) \<lparr>outcome = PUSH, reason = why\<rparr> = Some g
   \<and> map_option (\<lambda>g'. player_chips (player g'))
        (calculatePayout (Some (g\<lparr>player := (player g)\<lparr>player_chips := 1000, player_bet := 100\<rparr>\<rparr>))
           \<lparr>outcome = WIN, reason = why\<rparr>) = Some 1100
   \<and> map_option (\<lambda>g'. player_chips (player g'))
        (calculatePayout (Some (g\<lparr>player := (player g)\<lparr>player_chips := 1000, player_bet := 100\<rparr>\<rparr>))
           \<lparr>outcome = LOSE, reason = why\<rparr>) = Some 900
   \<and> map_option (\<lambda>g'. player_chips (player g'))
        (calculatePayout (Some (g\<lparr>player := (player g)\<lparr>player_chips := 1000, player_bet := 100\<rparr>\<rparr>))
           \<lparr>outcome = PUSH, reason = why\<rparr>) = Some 1000"
  by (simp add: calculatePayout_def)

section \<open>Effects and timers\<close>

lemma bustEffect_frame [simp]:
  "selectedBet (bustEffect s) = selectedBet s"
  "isBetting (bustEffect s) = isBetting s"
  "playerCards (bustEffect s) = playerCards s"
  "dealerCards (bustEffect s) = dealerCards s"
  "playerScore (bustEffect s) = playerScore s"
  "dealerScore (bustEffect s) = dealerScore s"
  "isPlayerActing (bustEffect s) = isPlayerActing s"
  "isDealerActing (bustEffect s) = isDealerActing s"
  "playerDrawIndex (bustEffect s) = playerDrawIndex s"
  "dealerDrawIndex (bustEffect s) = dealerDrawIndex s"
  "playerScoreTimer (bustEffect s) = playerScoreTimer s"
  "dealerScoreTimer (bustEffect s) = dealerScoreTimer s"
  by (simp_all add: bustEffect_def Let_def)

lemma bustEffect_idle: "stage s \<noteq> PLAYER_TURN \<Longrightarrow> bustEffect s = s"
  by (simp add: bustEffect_def)

lemma bustEffect_settled: "result s \<noteq> None \<Longrightarrow> bustEffect s = s"
  by (auto simp: bustEffect_def)

lemma delay_frame [simp]:
  "selectedBet (delay ms s) = selectedBet s"
  "isBetting (delay ms s) = isBetting s"
  "playerCards (delay ms s) = playerCards s"
  "dealerCards (delay ms s) = dealerCards s"
  "isPlayerActing (delay ms s) = isPlayerActing s"
  "isDealerActing (delay ms s) = isDealerActing s"
  "playerDrawIndex (delay ms s) = playerDrawIndex s"
  "dealerDrawIndex (delay ms s) = dealerDrawIndex s"
  by (simp_all add: delay_def firePlayerScore_def fireDealerScore_def Let_def split: option.splits)

lemma delay_idle:
  assumes "stage s \<noteq> PLAYER_TURN"
  shows "stage (delay ms s) = stage s" "result (delay ms s) = result s" "game (delay ms s) = game s"
  using assms
  by (simp_all add: delay_def firePlayerScore_def fireDealerScore_def bustEffect_idle Let_def
      split: option.splits)

lemma notBust_bustEffect: "roundOpen s \<Longrightarrow> notBust (bustEffect s)"
  by (auto simp: roundOpen_def notBust_def bustEffect_def Let_def split: option.splits)

lemma notBust_roundOpen: "notBust s \<Longrightarrow> roundOpen s"
  by (auto simp: roundOpen_def notBust_def)

lemma notBust_fixed: "notBust s \<Longrightarrow> bustEffect s = s"
  by (auto simp: notBust_def bustEffect_def split: option.splits)

lemma notBust_delay: "notBust s \<Longrightarrow> notBust (delay ms s)"
proof -
  assume nb: "notBust s"
  have fire: "notBust (firePlayerScore s)"
    unfolding firePlayerScore_def
    using nb by (intro notBust_bustEffect) (auto simp: roundOpen_def notBust_def)
  have upd: "notBust t \<Longrightarrow> notBust (t\<lparr>playerScoreTimer := x\<rparr>)"
    "notBust t \<Longrightarrow> notBust (t\<lparr>dealerScoreTimer := x\<rparr>)"
    "notBust t \<Longrightarrow> notBust (fireDealerScore t)" for t x
    by (auto simp: notBust_def fireDealerScore_def)
  show ?thesis
    using nb fire by (auto simp: delay_def Let_def upd split: option.splits)
qed

lemma roundOpen_cong:
  "stage t = stage s \<Longrightarrow> result t = result s \<Longrightarrow> roundOpen s \<Longrightarrow> roundOpen t"
  by (simp add: roundOpen_def)

lemma setters_frame [simp]:
  "stage (setPlayerCards cs s) = stage s"
  "result (setPlayerCards cs s) = result s"
  "playerScore (setPlayerCards cs s) = playerScore s"
  "stage (setDealerCards cs s) = stage s"
  "result (setDealerCards cs s) = result s"
  "playerScore (setDealerCards cs s) = playerScore s"
  by (simp_all add: setPlayerCards_def setDealerCards_def)

lemma notBust_same:
  "notBust s \<Longrightarrow> stage t = stage s \<Longrightarrow> result t = result s \<Longrightarrow> playerScore t = playerScore s
   \<Longrightarrow> notBust t"
  by (simp add: notBust_def)

lemma notBust_step: "notBust s \<Longrightarrow> notBust (delay ms (bustEffect s))"
  by (simp add: notBust_fixed notBust_delay)

lemma notBust_hit:
  assumes "notBust s"
  shows "notBust (handleHit s)"
proof (cases "actionBlocked s")
  case True
  with assms show ?thesis by (simp add: handleHit_def)
next
  case False
  obtain str s2 where d: "drawNextPlayerCard (s\<lparr>isPlayerActing := True\<rparr>) = (str, s2)"
    by (cases "drawNextPlayerCard (s\<lparr>isPlayerActing := True\<rparr>)")
  obtain r su where pc: "parseCard str = (r, su)" by (cases "parseCard str")
  define s3 where "s3 = setPlayerCards (playerCards s2 @ [\<lparr>rank = r, suit = su, isFaceDown = True\<rparr>]) s2"
  define s4 where "s4 = delay 450 (bustEffect s3)"
  define s5 where "s5 = setPlayerCards
      (map (\<lambda>c. if isFaceDown c then c\<lparr>isFaceDown := False\<rparr> else c) (playerCards s4)) s4"
  define s6 where "s6 = delay 150 (bustEffect s5)"
  have hit: "handleHit s = bustEffect (s6\<lparr>isPlayerActing := False\<rparr>)"
    using False d pc by (simp add: handleHit_def Let_def s3_def s4_def s5_def s6_def)
  from d have "s2 = s\<lparr>isPlayerActing := True, playerDrawIndex := playerDrawIndex s + 1\<rparr>"
    by (auto simp: drawNextPlayerCard_def Let_def)
  with assms have "notBust s3"
    unfolding s3_def by (intro notBust_same [OF assms]) simp_all
  then have "notBust s4" unfolding s4_def by (rule notBust_step)
  then have "notBust s5" unfolding s5_def by (rule notBust_same) simp_all
  then have "notBust s6" unfolding s6_def by (rule notBust_step)
  then have "notBust (s6\<lparr>isPlayerActing := False\<rparr>)" by (rule notBust_same) simp_all
  then show ?thesis by (simp add: hit notBust_fixed)
qed

lemma runDealerTurn_stage: "stage (runDealerTurn g dc snap s) = RESULT"
  by (simp add: runDealerTurn_def Let_def bustEffect_idle split: prod.splits)

lemma notBust_stand: "notBust s \<Longrightarrow> notBust (handleStand s)"
  by (simp add: handleStand_def) (simp add: notBust_def runDealerTurn_stage)

lemma notBust_double: "notBust s \<Longrightarrow> notBust (handleDouble s)"
  by (auto simp: handleDouble_def runDealerTurn_stage notBust_def split: option.splits prod.splits)

lemma notBust_reset: "notBust (handleReset s)"
proof -
  have "stage (handleReset s) = READY"
    by (simp add: handleReset_def Let_def bustEffect_idle split: option.splits)
  then show ?thesis by (simp add: notBust_def)
qed

lemma dealing_steps:
  "dealing t \<Longrightarrow> dealing (delay ms (bustEffect t))"
  "dealing t \<Longrightarrow> dealing (bustEffect t)"
  "dealing t \<Longrightarrow> dealing (setPlayerCards cs t)"
  "dealing t \<Longrightarrow> dealing (setDealerCards cs t)"
  "dealing t \<Longrightarrow> dealing (t\<lparr>game := x\<rparr>)"
  "dealing t \<Longrightarrow> dealing (t\<lparr>isBetting := b\<rparr>)"
  by (simp_all add: dealing_def bustEffect_idle delay_idle)

lemma handleBet_deals:
  assumes g: "game s = Some g" and nb: "\<not> isBetting s"
    and sel: "selectedBet s = None \<or> the (selectedBet s) = 0"
  shows "\<exists>t. handleBet amount s = bustEffect (t\<lparr>stage := PLAYER_TURN\<rparr>) \<and> dealing t"
proof -
  define s1 where "s1 = s\<lparr>isBetting := True, selectedBet := Some amount, stage := DEALING,
                     result := None, playerDrawIndex := 0, dealerDrawIndex := 0,
                     game := Some (g\<lparr>player := (player g)\<lparr>player_bet := amount\<rparr>,
                                     status := ''BET''\<rparr>)\<rparr>"
  have 1: "dealing s1" by (simp add: s1_def dealing_def)
  from nb sel have guard: "\<not> (isBetting s \<or> (selectedBet s \<noteq> None \<and> the (selectedBet s) \<noteq> 0))"
    by auto
  show ?thesis
    unfolding handleBet_def g option.case if_not_P [OF guard] Let_def
    apply (fold s1_def)
    apply (intro exI conjI)
     apply (rule refl)
    apply (intro dealing_steps 1)
    done
qed

lemma notBust_bet:
  assumes "notBust s"
  shows "notBust (handleBet amount s)"
proof (cases "game s = None \<or> isBetting s \<or> (selectedBet s \<noteq> None \<and> the (selectedBet s) \<noteq> 0)")
  case True
  then have "handleBet amount s = s"
    by (cases "game s") (simp_all add: handleBet_def)
  with assms show ?thesis by simp
next
  case False
  then obtain g where "game s = Some g" by auto
  with False obtain t where "handleBet amount s = bustEffect (t\<lparr>stage := PLAYER_TURN\<rparr>)"
    and "dealing t"
    using handleBet_deals [of s g amount] by auto
  then show ?thesis
    by (simp add: notBust_bustEffect roundOpen_def dealing_def)
qed

lemma notBust_initial: "notBust initial"
  by (simp add: notBust_def initial_def)

lemma reachable_notBust: "reachable s \<Longrightarrow> notBust s"
  by (induction rule: reachable.induct)
    (simp_all add: notBust_initial notBust_delay notBust_bet notBust_hit notBust_stand
      notBust_double notBust_reset)

lemma calculatePayout_None [simp]: "calculatePayout None r = None"
  by (simp add: calculatePayout_def)

section \<open>Rejected actions and reset\<close>

text \<open>
  C8. Hit, stand and double share one guard. Outside PLAYER_TURN, or while one of the busy
  flags \<open>isBetting\<close>, \<open>isPlayerActing\<close>, \<open>isDealerActing\<close> is set, each of the three
  handlers returns the state as it is; the handlers have no other result, and the alert of
  \<open>handleDouble\<close> is not shown.
\<close>

theorem blocked_actions_ignored:
  assumes "stage s \<noteq> PLAYER_TURN \<or> isBetting s \<or> isPlayerActing s \<or> isDealerActing s"
  shows "handleHit s = s \<and> handleStand s = s \<and> handleDouble s = s \<and> \<not> handleDouble_alerts s"
  using assms
  by (simp add: handleHit_def handleStand_def handleDouble_def handleDouble_alerts_def
      actionBlocked_def)

theorem blocked_actions_ignored_witness:
  "handleHit initial = initial \<and> handleStand initial = initial \<and> handleDouble initial = initial
   \<and> \<not> handleDouble_alerts initial
   \<and> handleHit (initial\<lparr>stage := PLAYER_TURN, isPlayerActing := True\<rparr>)
       = initial\<lparr>stage := PLAYER_TURN, isPlayerActing := True\<rparr>"
  using blocked_actions_ignored [of initial]
    blocked_actions_ignored [of "initial\<lparr>stage := PLAYER_TURN, isPlayerActing := True\<rparr>"]
  by (simp add: initial_def)

text \<open>
  C6. In PLAYER_TURN a double is rejected, the state unchanged, when the player does not
  have exactly two revealed cards or when twice the current bet exceeds the chips. The
  alert is shown in the second case only (two revealed cards and an open guard).
\<close>

theorem double_rejected:
  assumes "stage s = PLAYER_TURN"
    and "length (filter (\<lambda>c. \<not> isFaceDown c) (playerCards s)) \<noteq> 2
         \<or> (\<exists>g. game s = Some g \<and> player_chips (player g) < currentBetOf g s * 2)"
  shows "handleDouble s = s \<and> stage (handleDouble s) = PLAYER_TURN
       \<and> (handleDouble_alerts s \<longleftrightarrow>
            \<not> actionBlocked s \<and> length (filter (\<lambda>c. \<not> isFaceDown c) (playerCards s)) = 2)"
  using assms
  by (auto simp: handleDouble_def handleDouble_alerts_def split: option.splits)

text \<open>
  C9. \<open>handleReset\<close>, in every state and so in every state of RESULT, empties both
  hands, clears both scores, the selected bet and the result, and sets the stage READY;
  the chips of the stored game are the ones it had, its bet is 0. The scores stay cleared
  when the score timers set by the reset fire.
\<close>

theorem reset_returns_to_ready:
  "playerCards (handleReset s) = [] \<and> dealerCards (handleReset s) = []
   \<and> playerScore (handleReset s) = None \<and> dealerScore (handleReset s) = None
   \<and> selectedBet (handleReset s) = None \<and> result (handleReset s) = None
   \<and> stage (handleReset s) = READY
   \<and> map_option (\<lambda>g. player_chips (player g)) (game (handleReset s))
       = map_option (\<lambda>g. player_chips (player g)) (game s)
   \<and> map_option (\<lambda>g. player_bet (player g)) (game (handleReset s))
       = map_option (\<lambda>g. 0) (game s)
   \<and> playerScore (delay ms (handleReset s)) = None
   \<and> dealerScore (delay ms (handleReset s)) = None"
proof -
  have r: "handleReset s =
    (case game s of
       None \<Rightarrow> (setDealerCards [] (setPlayerCards [] s))
         \<lparr>playerScore := None, dealerScore := None, selectedBet := None, result := None,
          stage := READY, isBetting := False, isPlayerActing := False,
          isDealerActing := False, playerDrawIndex := 0, dealerDrawIndex := 0\<rparr>
     | Some g \<Rightarrow> (setDealerCards [] (setPlayerCards [] s))
         \<lparr>playerScore := None, dealerScore := None, selectedBet := None, result := None,
          stage := READY, isBetting := False, isPlayerActing := False,
          isDealerActing := False, playerDrawIndex := 0, dealerDrawIndex := 0,
          game := Some (g\<lparr>status := ''NEW'', player := (player g)\<lparr>player_bet := 0\<rparr>\<rparr>)\<rparr>)"
    by (simp add: handleReset_def Let_def bustEffect_idle split: option.splits)
  have e: "calculateHandValue [] = None"
    by (simp add: calculateHandValue_def revealedRanks_def)
  show ?thesis
    unfolding r
    by (cases "game s")
      (simp_all add: setPlayerCards_def setDealerCards_def delay_def firePlayerScore_def
        fireDealerScore_def bustEffect_idle e)
qed

theorem double_rejected_witness:
  "handleDouble (playerTurn [faceUp ''10'', faceUp ''9'', faceUp ''5''] [faceUp ''10'', faceDown ''7''] 10000 100)
     = playerTurn [faceUp ''10'', faceUp ''9'', faceUp ''5''] [faceUp ''10'', faceDown ''7''] 10000 100
   \<and> handleDouble (playerTurn [faceUp ''6'', faceUp ''5''] [faceUp ''10'', faceDown ''7''] 150 100)
     = playerTurn [faceUp ''6'', faceUp ''5''] [faceUp ''10'', faceDown ''7''] 150 100
   \<and> handleDouble_alerts (playerTurn [faceUp ''6'', faceUp ''5''] [faceUp ''10'', faceDown ''7''] 150 100)"
  using double_rejected [of "playerTurn [faceUp ''10'', faceUp ''9'', faceUp ''5''] [faceUp ''10'', faceDown ''7''] 10000 100"]
    double_rejected [of "playerTurn [faceUp ''6'', faceUp ''5''] [faceUp ''10'', faceDown ''7''] 150 100"]
  by (simp add: playerTurn_def faceUp_def faceDown_def currentBetOf_def actionBlocked_def)

section \<open>The player-bust effect\<close>

lemma bustEffect_stops:
  "stage s = RESULT \<Longrightarrow>
   handleHit s = s \<and> handleStand s = s \<and> handleDouble s = s \<and> bustEffect s = s
   \<and> stage (delay ms s) = RESULT \<and> result (delay ms s) = result s \<and> game (delay ms s) = game s"
  by (simp add: handleHit_def handleStand_def handleDouble_def actionBlocked_def
      bustEffect_idle delay_idle)

text \<open>
  The bust effect reads the state variable \<open>playerScore\<close>, which follows the revealed hand
  by the 320 ms of the score timer. In PLAYER_TURN, with no result set and that variable
  above 21, the effect sets the result LOSE with the bust reason, pays out and sets the
  stage RESULT in one step; hit, stand and double are then ignored and the timers leave
  stage and result alone, so the round never enters DEALER_TURN. Since React runs the
  effect before the next event, no state that handles an event is in PLAYER_TURN with
  \<open>playerScore\<close> above 21: in every reachable state of PLAYER_TURN no result is set and
  \<open>playerScore\<close> is at most 21. Nothing is said here of the value of the revealed hand
  itself.
\<close>

theorem player_bust_ends_round:
  "(stage s = PLAYER_TURN \<and> result s = None \<and> playerScore s = Some p \<and> 21 < p \<longrightarrow>
      bustEffect s = s\<lparr>result := Some \<lparr>outcome = LOSE, reason = Bust\<rparr>,
                        game := calculatePayout (game s) \<lparr>outcome = LOSE, reason = Bust\<rparr>,
                        stage := RESULT\<rparr>
      \<and> handleHit (bustEffect s) = bustEffect s
      \<and> handleStand (bustEffect s) = bustEffect s
      \<and> handleDouble (bustEffect s) = bustEffect s
      \<and> stage (delay ms (bustEffect s)) = RESULT
      \<and> result (delay ms (bustEffect s)) = Some \<lparr>outcome = LOSE, reason = Bust\<rparr>)
   \<and> (reachable t \<and> stage t = PLAYER_TURN \<longrightarrow>
        result t = None \<and> (\<forall>q. playerScore t = Some q \<longrightarrow> q \<le> 21))"
proof (intro conjI impI)
  assume a: "stage s = PLAYER_TURN \<and> result s = None \<and> playerScore s = Some p \<and> 21 < p"
  then have b: "bustEffect s = s\<lparr>result := Some \<lparr>outcome = LOSE, reason = Bust\<rparr>,
                        game := calculatePayout (game s) \<lparr>outcome = LOSE, reason = Bust\<rparr>,
                        stage := RESULT\<rparr>"
    by (cases "game s") (simp_all add: bustEffect_def Let_def)
  then have st: "stage (bustEffect s) = RESULT"
    and rs: "result (bustEffect s) = Some \<lparr>outcome = LOSE, reason = Bust\<rparr>" by simp_all
  from b show "bustEffect s = s\<lparr>result := Some \<lparr>outcome = LOSE, reason = Bust\<rparr>,
                        game := calculatePayout (game s) \<lparr>outcome = LOSE, reason = Bust\<rparr>,
                        stage := RESULT\<rparr>" .
  from bustEffect_stops [OF st] rs
  show "handleHit (bustEffect s) = bustEffect s" "handleStand (bustEffect s) = bustEffect s"
    "handleDouble (bustEffect s) = bustEffect s" "stage (delay ms (bustEffect s)) = RESULT"
    "result (delay ms (bustEffect s)) = Some \<lparr>outcome = LOSE, reason = Bust\<rparr>"
    by simp_all
next
  assume "reachable t \<and> stage t = PLAYER_TURN"
  then have "notBust t" "stage t = PLAYER_TURN" by (simp_all add: reachable_notBust)
  then show "result t = None" "\<forall>q. playerScore t = Some q \<longrightarrow> q \<le> 21"
    by (auto simp: notBust_def)
qed

lemma bet_state: "handleBet 100 initial =
  \<lparr>selectedBet = Some 100, isBetting = False,
    playerCards =
      [\<lparr>rank = ''A'', suit = ''hearts/heart'', isFaceDown = False\<rparr>,
       \<lparr>rank = ''K'', suit = ''spades/spade'', isFaceDown = False\<rparr>],
    dealerCards =
      [\<lparr>rank = ''10'', suit = ''diamonds/diamond'', isFaceDown = False\<rparr>,
       \<lparr>rank = ''7'', suit = ''clubs/club'', isFaceDown = True\<rparr>],
    playerScore = Some 21, dealerScore = Some 10, stage = PLAYER_TURN,
    result = None, isPlayerActing = False, isDealerActing = False,
    game =
      Some
       \<lparr>game_id = 1, status = ''BET'',
          player =
            \<lparr>player_chips = 10000,
               player_cards = [(''A'', Heart), (''K'', Spade)],
               player_bet = 100\<rparr>,
          dealer =
            \<lparr>dealer_chips = 999999,
               dealer_cards = [(''10'', Diamond), (''7'', Club)]\<rparr>\<rparr>,
    playerDrawIndex = 0, dealerDrawIndex = 0, playerScoreTimer = None,
    dealerScoreTimer = None\<rparr>"
  by code_simp

theorem player_bust_ends_round_witness:
  "stage (bustEffect (playerTurn [faceUp ''10'', faceUp ''9'', faceUp ''5''] [faceUp ''10'', faceDown ''7''] 10000 100)) = RESULT
   \<and> result (bustEffect (playerTurn [faceUp ''10'', faceUp ''9'', faceUp ''5''] [faceUp ''10'', faceDown ''7''] 10000 100))
       = Some \<lparr>outcome = LOSE, reason = Bust\<rparr>
   \<and> map_option (\<lambda>g. player_chips (player g))
        (game (bustEffect (playerTurn [faceUp ''10'', faceUp ''9'', faceUp ''5''] [faceUp ''10'', faceDown ''7''] 10000 100)))
       = Some 9900
   \<and> stage (handleBet 100 initial) = PLAYER_TURN
   \<and> playerScore (handleBet 100 initial) = Some 21"
proof -
  let ?s = "playerTurn [faceUp ''10'', faceUp ''9'', faceUp ''5''] [faceUp ''10'', faceDown ''7''] 10000 100"
  have sc: "playerScore ?s = Some 24"
    by (simp add: playerTurn_def faceUp_def calculateHandValue_def revealedRanks_def Number_js_def)
  have pre: "stage ?s = PLAYER_TURN \<and> result ?s = None \<and> playerScore ?s = Some 24 \<and> (21::int) < 24"
    using sc by (simp add: playerTurn_def)
  have re: "reachable (handleBet 100 initial)"
    by (intro reachable.intros) simp
  have st: "stage (handleBet 100 initial) = PLAYER_TURN"
    by (simp add: bet_state)
  from player_bust_ends_round [of ?s 24 _ "handleBet 100 initial"] pre re st
  have "bustEffect ?s = ?s\<lparr>result := Some \<lparr>outcome = LOSE, reason = Bust\<rparr>,
                        game := calculatePayout (game ?s) \<lparr>outcome = LOSE, reason = Bust\<rparr>,
                        stage := RESULT\<rparr>"
    and "\<forall>q. playerScore (handleBet 100 initial) = Some q \<longrightarrow> q \<le> 21"
    by blast+
  then show ?thesis
    using st by (simp add: bet_state) (simp add: playerTurn_def calculatePayout_def)
qed

section \<open>The dealer's loop\<close>

lemma dealerLoop_stop: "\<not> dv < 17 \<Longrightarrow> dealerLoop l dv s = (l, dv, s)"
  by (subst dealerLoop.simps) simp

lemma dealerValueOf_snoc:
  "(case calculateHandValue (l @ [\<lparr>rank = r, suit = su, isFaceDown = False\<rparr>]) of
      None \<Rightarrow> dv | Some v \<Rightarrow> v)
   = dealerValueOf (l @ [\<lparr>rank = r, suit = su, isFaceDown = False\<rparr>])"
  using calculateHandValue_snoc_Some [of l r su] by (auto simp: dealerValueOf_def)

lemma dealerLoop_continue:
  "dv < 17 \<Longrightarrow>
   dealerLoop l dv s =
     dealerLoop (l @ [dealerCardAt (dealerDrawIndex s)])
       (dealerValueOf (l @ [dealerCardAt (dealerDrawIndex s)])) (dealerRound l s)"
  by (subst dealerLoop.simps)
    (simp add: drawNextDealerCard_def Let_def flipLast_snoc dealerValueOf_snoc dealerCardAt_def
      dealerRound_def split: prod.splits)

lemma dealerLoop_rounds [consumes 0, case_names round]:
  assumes "\<And>l dv s.
     (dv < 17 \<Longrightarrow> P (l @ [dealerCardAt (dealerDrawIndex s)])
                      (dealerValueOf (l @ [dealerCardAt (dealerDrawIndex s)])) (dealerRound l s))
     \<Longrightarrow> P l dv s"
  shows "P l dv s"
proof (induction l dv s rule: dealerLoop.induct)
  case (1 l dv s)
  show ?case
  proof (rule assms)
    assume lt: "dv < 17"
    obtain str s1 where d: "(str, s1) = drawNextDealerCard s" by (metis surj_pair)
    obtain r su where p: "(r, su) = parseCard str" by (metis surj_pair)
    from d p have c: "dealerCardAt (dealerDrawIndex s) = \<lparr>rank = r, suit = su, isFaceDown = False\<rparr>"
      and s1: "s1 = s\<lparr>dealerDrawIndex := dealerDrawIndex s + 1\<rparr>"
      by (auto simp: drawNextDealerCard_def dealerCardAt_def Let_def split: prod.splits)
    from 1 [OF lt d p refl refl refl refl refl]
    show "P (l @ [dealerCardAt (dealerDrawIndex s)])
            (dealerValueOf (l @ [dealerCardAt (dealerDrawIndex s)])) (dealerRound l s)"
      by (simp add: c s1 flipLast_snoc dealerValueOf_snoc dealerRound_def Let_def)
  qed
qed

lemma setters_frame2 [simp]:
  "game (setPlayerCards cs s) = game s"
  "game (setDealerCards cs s) = game s"
  "selectedBet (setPlayerCards cs s) = selectedBet s"
  "selectedBet (setDealerCards cs s) = selectedBet s"
  "isBetting (setPlayerCards cs s) = isBetting s"
  "isBetting (setDealerCards cs s) = isBetting s"
  "isPlayerActing (setPlayerCards cs s) = isPlayerActing s"
  "isPlayerActing (setDealerCards cs s) = isPlayerActing s"
  "isDealerActing (setPlayerCards cs s) = isDealerActing s"
  "isDealerActing (setDealerCards cs s) = isDealerActing s"
  "playerDrawIndex (setPlayerCards cs s) = playerDrawIndex s"
  "playerDrawIndex (setDealerCards cs s) = playerDrawIndex s"
  "dealerDrawIndex (setPlayerCards cs s) = dealerDrawIndex s"
  "dealerDrawIndex (setDealerCards cs s) = dealerDrawIndex s"
  "playerCards (setPlayerCards cs s) = cs"
  "playerCards (setDealerCards cs s) = playerCards s"
  "dealerCards (setPlayerCards cs s) = dealerCards s"
  "dealerCards (setDealerCards cs s) = cs"
  "playerScoreTimer (setPlayerCards cs s) = Some 320"
  "playerScoreTimer (setDealerCards cs s) = playerScoreTimer s"
  "dealerScoreTimer (setPlayerCards cs s) = dealerScoreTimer s"
  "dealerScoreTimer (setDealerCards cs s) = Some 320"
  "dealerScore (setPlayerCards cs s) = dealerScore s"
  "dealerScore (setDealerCards cs s) = dealerScore s"
  by (simp_all add: setPlayerCards_def setDealerCards_def)

lemma dealerRound_frame [simp]:
  "dealerDrawIndex (dealerRound l s) = dealerDrawIndex s + 1"
  "dealerCards (dealerRound l s) = l @ [dealerCardAt (dealerDrawIndex s)]"
  "playerCards (dealerRound l s) = playerCards s"
  "playerDrawIndex (dealerRound l s) = playerDrawIndex s"
  "selectedBet (dealerRound l s) = selectedBet s"
  "isBetting (dealerRound l s) = isBetting s"
  "isPlayerActing (dealerRound l s) = isPlayerActing s"
  "isDealerActing (dealerRound l s) = isDealerActing s"
  by (simp_all add: dealerRound_def Let_def)

lemma dealerRound_idle:
  assumes "stage s \<noteq> PLAYER_TURN"
  shows "stage (dealerRound l s) = stage s" "result (dealerRound l s) = result s"
    "game (dealerRound l s) = game s"
  using assms
  by (simp_all add: dealerRound_def Let_def bustEffect_idle delay_idle)

lemma dealerDraws_0: "dealerDraws i 0 = []"
  by (simp add: dealerDraws_def)

lemma dealerDraws_Suc: "dealerDraws i (Suc n) = dealerCardAt i # dealerDraws (Suc i) n"
proof -
  have "[0..<Suc n] = 0 # map Suc [0..<n]"
    by (simp add: upt_conv_Cons map_Suc_upt del: upt_Suc)
  then show ?thesis
    by (simp add: dealerDraws_def comp_def del: upt_Suc)
qed

lemma dealerLoop_draws:
  "dv = dealerValueOf l \<Longrightarrow>
   \<exists>n. fst (dealerLoop l dv s) = l @ dealerDraws (dealerDrawIndex s) n
      \<and> fst (snd (dealerLoop l dv s)) = dealerValueOf (l @ dealerDraws (dealerDrawIndex s) n)
      \<and> 17 \<le> fst (snd (dealerLoop l dv s))
      \<and> (\<forall>k<n. dealerValueOf (l @ dealerDraws (dealerDrawIndex s) k) < 17)
      \<and> dealerDrawIndex (snd (snd (dealerLoop l dv s))) = dealerDrawIndex s + n
      \<and> (0 < n \<longrightarrow> dealerCards (snd (snd (dealerLoop l dv s))) = l @ dealerDraws (dealerDrawIndex s) n)
      \<and> (n = 0 \<longrightarrow> snd (snd (dealerLoop l dv s)) = s)"
proof (induction l dv s rule: dealerLoop_rounds)
  case (round l dv s)
  show ?case
  proof (cases "dv < 17")
    case False
    with round.prems show ?thesis
      by (intro exI [of _ 0]) (simp add: dealerLoop_stop dealerDraws_0)
  next
    case True
    let ?i = "dealerDrawIndex s"
    let ?l = "l @ [dealerCardAt ?i]"
    let ?r = "dealerLoop ?l (dealerValueOf ?l) (dealerRound l s)"
    let ?j = "dealerDrawIndex (dealerRound l s)"
    from round.IH [OF True refl] obtain n where
      n': "fst ?r = ?l @ dealerDraws ?j n"
        "fst (snd ?r) = dealerValueOf (?l @ dealerDraws ?j n)"
        "17 \<le> fst (snd ?r)"
        "\<forall>k<n. dealerValueOf (?l @ dealerDraws ?j k) < 17"
        "dealerDrawIndex (snd (snd ?r)) = ?j + n"
        "0 < n \<longrightarrow> dealerCards (snd (snd ?r)) = ?l @ dealerDraws ?j n"
        "n = 0 \<longrightarrow> snd (snd ?r) = dealerRound l s"
      by blast
    have j: "?j = Suc ?i" by simp
    note n = n' [unfolded j]
    have eq: "dealerLoop l dv s = ?r" using True by (rule dealerLoop_continue)
    have below: "dealerValueOf (l @ dealerDraws ?i k) < 17" if "k < Suc n" for k
    proof (cases k)
      case 0
      with True round.prems show ?thesis by (simp add: dealerDraws_0)
    next
      case (Suc j)
      with that n(4) show ?thesis by (simp add: dealerDraws_Suc)
    qed
    have cards: "dealerCards (snd (snd ?r)) = l @ dealerDraws ?i (Suc n)"
      using n(6,7) by (cases n) (simp_all add: dealerDraws_Suc dealerDraws_0)
    show ?thesis
      unfolding eq
      using n(1,2,3,5) below cards
      by (intro exI [of _ "Suc n"]) (simp add: dealerDraws_Suc)
  qed
qed

lemma hardSum_snoc_dealerCardAt:
  "hardSum (l @ [dealerCardAt j]) = hardSum l + dealerPoints j"
proof -
  have "j mod 5 < 5" by simp
  then have "j mod 5 \<in> {0, 1, 2, 3, 4}" by auto
  then show ?thesis
    by (auto simp: dealerCardAt_def dealerPoints_def mockDealerDeck_def parseCard_def hardSum_def
        revealedRanks_def countRanks_append Number_js_def split: prod.splits)
qed

lemma dealerDraws_snoc: "dealerDraws i (Suc n) = dealerDraws i n @ [dealerCardAt (i + n)]"
  by (simp add: dealerDraws_def)

lemma hardSum_draws:
  "hardSum (l @ dealerDraws i n) = hardSum l + (\<Sum>k<n. dealerPoints (i + k))"
proof (induction n)
  case 0
  then show ?case by (simp add: dealerDraws_0)
next
  case (Suc n)
  have "hardSum (l @ dealerDraws i (Suc n)) = hardSum ((l @ dealerDraws i n) @ [dealerCardAt (i + n)])"
    by (simp add: dealerDraws_snoc)
  also have "\<dots> = hardSum (l @ dealerDraws i n) + dealerPoints (i + n)"
    by (rule hardSum_snoc_dealerCardAt)
  finally show ?case by (simp add: Suc.IH)
qed

lemma dealerPoints_cycle: "(\<Sum>k<5. dealerPoints (i + k)) = 24"
proof -
  have e: "(\<Sum>k<5. dealerPoints (i + k))
      = dealerPoints (i + 0) + dealerPoints (i + 1) + dealerPoints (i + 2) + dealerPoints (i + 3)
        + dealerPoints (i + 4)"
    by (simp add: numeral_eq_Suc)
  define j where "j = i mod 5"
  have p: "dealerPoints (i + c) = [3, 4, 9, 2, 6] ! ((j + c) mod 5)" for c
    by (simp add: dealerPoints_def j_def mod_add_left_eq)
  have "j < 5" by (simp add: j_def)
  then have "j \<in> {0, 1, 2, 3, 4}" by auto
  then show ?thesis
    by (subst e) (auto simp only: p, simp_all)
qed

lemma hardSum_valid_nonneg: "validHand cs \<Longrightarrow> 0 \<le> hardSum cs"
  using countRanks_closed [OF validHand_revealed, of cs 0 0] nonAceSum_nonneg [of "revealedRanks cs"]
  by (simp add: hardSum_def)

lemma dealerCardAt_up [simp]: "\<not> isFaceDown (dealerCardAt j)"
  by (simp add: dealerCardAt_def split: prod.splits)

lemma dealerDraws_up: "list_all (\<lambda>c. \<not> isFaceDown c) (dealerDraws i n)"
  by (simp add: dealerDraws_def list_all_iff)

lemma dealerDraws_bound:
  assumes "0 \<le> hardSum l" and "\<forall>k<n. dealerValueOf (l @ dealerDraws i k) < 17"
  shows "n \<le> 5"
proof (rule ccontr)
  assume "\<not> n \<le> 5"
  with assms(2) have lt: "dealerValueOf (l @ dealerDraws i 5) < 17" by simp
  have "\<not> list_all isFaceDown (l @ dealerDraws i 5)"
    by (simp add: dealerDraws_def numeral_eq_Suc)
  then obtain v where v: "calculateHandValue (l @ dealerDraws i 5) = Some v"
    using calculateHandValue_None [of "l @ dealerDraws i 5"] by auto
  from calculateHandValue_ge_hardSum [OF v] assms(1)
  have "24 \<le> v" by (simp add: hardSum_draws dealerPoints_cycle)
  with lt v show False by (simp add: dealerValueOf_def)
qed

lemma dealerPlay_loop:
  "dealerPlay dc s =
     dealerLoop (map (\<lambda>c. c\<lparr>isFaceDown := False\<rparr>) dc)
       (dealerValueOf (map (\<lambda>c. c\<lparr>isFaceDown := False\<rparr>) dc))
       (delay 650 (setDealerCards (map (\<lambda>c. c\<lparr>isFaceDown := False\<rparr>) dc)
          (s\<lparr>stage := DEALER_TURN, isDealerActing := True\<rparr>)))"
  by (simp add: dealerPlay_def Let_def dealerValueOf_def bustEffect_idle)

text \<open>
  C7. In the dealer's turn the hand is first turned face up as a whole; then the dealer
  draws the next cards of the mock deck, one at a time and face up, as long as the value
  of the hand is below 17. The loop ends, after at most five draws, with the first hand
  worth 17 or more, which may be above 21.
\<close>

theorem dealer_draws_until_17:
  assumes "list_all (\<lambda>c. isRank (rank c)) dc"
  shows "\<exists>n\<le>5.
           fst (dealerPlay dc s)
             = map (\<lambda>c. c\<lparr>isFaceDown := False\<rparr>) dc @ dealerDraws (dealerDrawIndex s) n
         \<and> (\<forall>k<n. dealerValueOf
                (map (\<lambda>c. c\<lparr>isFaceDown := False\<rparr>) dc @ dealerDraws (dealerDrawIndex s) k) < 17)
         \<and> fst (snd (dealerPlay dc s)) = dealerValueOf (fst (dealerPlay dc s))
         \<and> 17 \<le> fst (snd (dealerPlay dc s))
         \<and> list_all (\<lambda>c. \<not> isFaceDown c) (fst (dealerPlay dc s))
         \<and> dealerCards (snd (snd (dealerPlay dc s))) = fst (dealerPlay dc s)
         \<and> dealerDrawIndex (snd (snd (dealerPlay dc s))) = dealerDrawIndex s + n"
proof -
  let ?l = "map (\<lambda>c. c\<lparr>isFaceDown := False\<rparr>) dc"
  let ?s = "delay 650 (setDealerCards ?l (s\<lparr>stage := DEALER_TURN, isDealerActing := True\<rparr>))"
  let ?r = "dealerLoop ?l (dealerValueOf ?l) ?s"
  have i: "dealerDrawIndex ?s = dealerDrawIndex s" by simp
  from dealerLoop_draws [OF refl, of ?l ?s] obtain n where
    n: "fst ?r = ?l @ dealerDraws (dealerDrawIndex s) n"
      "fst (snd ?r) = dealerValueOf (?l @ dealerDraws (dealerDrawIndex s) n)"
      "17 \<le> fst (snd ?r)"
      "\<forall>k<n. dealerValueOf (?l @ dealerDraws (dealerDrawIndex s) k) < 17"
      "dealerDrawIndex (snd (snd ?r)) = dealerDrawIndex s + n"
      "0 < n \<longrightarrow> dealerCards (snd (snd ?r)) = ?l @ dealerDraws (dealerDrawIndex s) n"
      "n = 0 \<longrightarrow> snd (snd ?r) = ?s"
    unfolding i by blast
  from assms have "validHand ?l"
    by (simp add: validHand_def list_all_iff)
  then have "0 \<le> hardSum ?l" by (rule hardSum_valid_nonneg)
  then have le: "n \<le> 5" using n(4) by (rule dealerDraws_bound)
  have up: "list_all (\<lambda>c. \<not> isFaceDown c) (?l @ dealerDraws (dealerDrawIndex s) n)"
    using dealerDraws_up [of "dealerDrawIndex s" n] by (auto simp: list_all_iff)
  have cards: "dealerCards (snd (snd ?r)) = ?l @ dealerDraws (dealerDrawIndex s) n"
    using n(6,7) by (cases n) (simp_all add: dealerDraws_0)
  show ?thesis
    unfolding dealerPlay_loop
    using le n(1,2,3,4,5) up cards
    by (intro exI [of _ n]) simp
qed

lemmas hand_eval =
  calculateHandValue_def revealedRanks_def Number_js_def faceUp_def faceDown_def

lemmas dealer_eval =
  dealerPlay_loop dealerLoop_continue dealerLoop_stop dealerValueOf_def dealerCardAt_def
  mockDealerDeck_def parseCard_def

theorem dealer_draws_until_17_witness:
  "(\<exists>n\<le>5.
      fst (dealerPlay [faceUp ''10'', faceDown ''2'']
             (playerTurn [faceUp ''A'', faceUp ''K''] [faceUp ''10'', faceDown ''2''] 10000 100))
        = map (\<lambda>c. c\<lparr>isFaceDown := False\<rparr>) [faceUp ''10'', faceDown ''2'']
            @ dealerDraws 0 n
    \<and> 17 \<le> fst (snd (dealerPlay [faceUp ''10'', faceDown ''2'']
             (playerTurn [faceUp ''A'', faceUp ''K''] [faceUp ''10'', faceDown ''2''] 10000 100))))
   \<and> map rank (fst (dealerPlay [faceUp ''10'', faceDown ''2'']
             (playerTurn [faceUp ''A'', faceUp ''K''] [faceUp ''10'', faceDown ''2''] 10000 100)))
       = [''10'', ''2'', ''3'', ''4'']
   \<and> fst (snd (dealerPlay [faceUp ''10'', faceDown ''2'']
             (playerTurn [faceUp ''A'', faceUp ''K''] [faceUp ''10'', faceDown ''2''] 10000 100))) = 19"
proof -
  let ?dc = "[faceUp ''10'', faceDown ''2'']"
  let ?s = "playerTurn [faceUp ''A'', faceUp ''K''] [faceUp ''10'', faceDown ''2''] 10000 100"
  have v: "list_all (\<lambda>c. isRank (rank c)) ?dc"
    by (simp add: faceUp_def faceDown_def isRank_def)
  have i: "dealerDrawIndex ?s = 0" by (simp add: playerTurn_def)
  from dealer_draws_until_17 [OF v, of ?s]
  have "\<exists>n\<le>5. fst (dealerPlay ?dc ?s) = map (\<lambda>c. c\<lparr>isFaceDown := False\<rparr>) ?dc @ dealerDraws 0 n
          \<and> 17 \<le> fst (snd (dealerPlay ?dc ?s))"
    unfolding i by blast
  moreover have "map rank (fst (dealerPlay ?dc ?s)) = [''10'', ''2'', ''3'', ''4'']"
    by (simp add: hand_eval dealer_eval playerTurn_def)
  moreover have "fst (snd (dealerPlay ?dc ?s)) = 19"
    by (simp add: hand_eval dealer_eval playerTurn_def)
  ultimately show ?thesis by blast
qed

section \<open>The outcome of the dealer turn\<close>

lemma dealerLoop_idle:
  "stage s \<noteq> PLAYER_TURN \<Longrightarrow>
   stage (snd (snd (dealerLoop l dv s))) = stage s
   \<and> result (snd (snd (dealerLoop l dv s))) = result s
   \<and> game (snd (snd (dealerLoop l dv s))) = game s"
proof (induction l dv s rule: dealerLoop_rounds)
  case (round l dv s)
  show ?case
  proof (cases "dv < 17")
    case True
    with round.IH [OF True] round.prems show ?thesis
      by (simp add: dealerLoop_continue dealerRound_idle)
  next
    case False
    then show ?thesis by (simp add: dealerLoop_stop)
  qed
qed

lemma dealerLoop_frame:
  "playerCards (snd (snd (dealerLoop l dv s))) = playerCards s
   \<and> playerDrawIndex (snd (snd (dealerLoop l dv s))) = playerDrawIndex s
   \<and> selectedBet (snd (snd (dealerLoop l dv s))) = selectedBet s
   \<and> isBetting (snd (snd (dealerLoop l dv s))) = isBetting s
   \<and> isPlayerActing (snd (snd (dealerLoop l dv s))) = isPlayerActing s
   \<and> isDealerActing (snd (snd (dealerLoop l dv s))) = isDealerActing s"
proof (induction l dv s rule: dealerLoop_rounds)
  case (round l dv s)
  show ?case
  proof (cases "dv < 17")
    case True
    with round.IH [OF True] show ?thesis
      by (simp add: dealerLoop_continue)
  next
    case False
    then show ?thesis by (simp add: dealerLoop_stop)
  qed
qed

lemma dealerPlay_idle:
  "stage (snd (snd (dealerPlay dc s))) = DEALER_TURN"
  "result (snd (snd (dealerPlay dc s))) = result s"
  "game (snd (snd (dealerPlay dc s))) = game s"
  using dealerLoop_idle [of "delay 650 (setDealerCards (map (\<lambda>c. c\<lparr>isFaceDown := False\<rparr>) dc)
          (s\<lparr>stage := DEALER_TURN, isDealerActing := True\<rparr>))"
      "map (\<lambda>c. c\<lparr>isFaceDown := False\<rparr>) dc" "dealerValueOf (map (\<lambda>c. c\<lparr>isFaceDown := False\<rparr>) dc)"]
  by (simp_all add: dealerPlay_loop delay_idle)

lemma runDealerTurn_settles:
  "runDealerTurn g dc snap s =
     (snd (snd (dealerPlay dc s)))
       \<lparr>result := Some (decideOutcome (playerValueOf snap) (fst (snd (dealerPlay dc s)))),
        game := calculatePayout g (decideOutcome (playerValueOf snap) (fst (snd (dealerPlay dc s)))),
        stage := RESULT, isDealerActing := False\<rparr>"
  by (simp add: runDealerTurn_def Let_def bustEffect_idle split: prod.splits)

lemma decideOutcome_firstMatch:
  "firstMatch spec_outcome_rules p d = Some (outcome (decideOutcome p d))"
  by (simp add: spec_outcome_rules_def decideOutcome_def)

lemma calculateHandValue_revealed:
  "calculateHandValue (filter (\<lambda>c. \<not> isFaceDown c) cs) = calculateHandValue cs"
  by (simp add: calculateHandValue_def revealedRanks_def)

lemma dealerLoop_value:
  assumes "dv = dealerValueOf l"
  shows "fst (snd (dealerLoop l dv s)) = dealerValueOf (fst (dealerLoop l dv s))"
proof -
  from dealerLoop_draws [OF assms, of s] obtain n where
    "fst (dealerLoop l dv s) = l @ dealerDraws (dealerDrawIndex s) n"
    "fst (snd (dealerLoop l dv s)) = dealerValueOf (l @ dealerDraws (dealerDrawIndex s) n)"
    by blast
  then show ?thesis by simp
qed

lemma dealerPlay_value:
  "fst (snd (dealerPlay dc s)) = dealerValueOf (fst (dealerPlay dc s))"
  by (simp add: dealerPlay_loop dealerLoop_value)

text \<open>
  C2. The result \<open>runDealerTurn\<close> sets is the first matching rule of the five, applied
  to the value of the revealed cards of the player's snapshot (taken before the dealer's
  turn) and the value of the dealer's hand at the end of the loop. It is the only result
  set in the dealer's turn: none is set while the dealer plays, and once it is set the
  stage is RESULT, where the bust effect, the score timers, hit, stand and double leave
  it as it is.
\<close>

theorem dealer_turn_outcome:
  "(let p = playerValueOf snap;
        d = fst (snd (dealerPlay dc s));
        t = runDealerTurn g dc snap s
    in map_option outcome (result t) = firstMatch spec_outcome_rules p d
       \<and> p = (case calculateHandValue snap of None \<Rightarrow> 0 | Some v \<Rightarrow> v)
       \<and> d = dealerValueOf (fst (dealerPlay dc s))
       \<and> result (snd (snd (dealerPlay dc s))) = result s
       \<and> game t = calculatePayout g (decideOutcome p d)
       \<and> stage t = RESULT
       \<and> bustEffect t = t \<and> handleHit t = t \<and> handleStand t = t \<and> handleDouble t = t
       \<and> result (delay ms t) = result t)"
proof -
  let ?t = "runDealerTurn g dc snap s"
  have st: "stage ?t = RESULT" by (simp add: runDealerTurn_settles)
  have "map_option outcome (result ?t)
      = firstMatch spec_outcome_rules (playerValueOf snap) (fst (snd (dealerPlay dc s)))"
    by (simp add: runDealerTurn_settles decideOutcome_firstMatch)
  moreover have "playerValueOf snap = (case calculateHandValue snap of None \<Rightarrow> 0 | Some v \<Rightarrow> v)"
    by (simp add: playerValueOf_def calculateHandValue_revealed)
  moreover have "game ?t
      = calculatePayout g (decideOutcome (playerValueOf snap) (fst (snd (dealerPlay dc s))))"
    by (simp add: runDealerTurn_settles)
  moreover note dealerPlay_value [of dc s] dealerPlay_idle(2) [of dc s] st bustEffect_stops [OF st, of ms]
  ultimately show ?thesis
    unfolding Let_def by blast
qed

theorem dealer_turn_outcome_witness:
  "map_option outcome
     (result (handleStand (playerTurn [faceUp ''A'', faceUp ''K''] [faceUp ''10'', faceDown ''7''] 10000 100)))
     = Some WIN
   \<and> map_option (\<lambda>g'. player_chips (player g'))
       (game (handleStand (playerTurn [faceUp ''A'', faceUp ''K''] [faceUp ''10'', faceDown ''7''] 10000 100)))
     = Some 10100"
proof -
  let ?s = "playerTurn [faceUp ''A'', faceUp ''K''] [faceUp ''10'', faceDown ''7''] 10000 100"
  have "\<not> actionBlocked ?s" by (simp add: actionBlocked_def playerTurn_def)
  then have hs: "handleStand ?s = runDealerTurn (game ?s) (dealerCards ?s) (playerCards ?s) ?s"
    by (simp add: handleStand_def)
  have p: "playerValueOf (playerCards ?s) = 21"
    by (simp add: playerValueOf_def playerTurn_def hand_eval)
  have d: "fst (snd (dealerPlay (dealerCards ?s) ?s)) = 17"
    by (simp add: hand_eval dealer_eval playerTurn_def)
  note t = dealer_turn_outcome [of "playerCards ?s" "dealerCards ?s" ?s "game ?s", unfolded Let_def p d]
  from t have "map_option outcome (result (runDealerTurn (game ?s) (dealerCards ?s) (playerCards ?s) ?s))
      = firstMatch spec_outcome_rules 21 17"
    and "game (runDealerTurn (game ?s) (dealerCards ?s) (playerCards ?s) ?s)
      = calculatePayout (game ?s) (decideOutcome 21 17)"
    by blast+
  then show ?thesis
    unfolding hs
    by (simp add: spec_outcome_rules_def decideOutcome_def) (simp add: playerTurn_def calculatePayout_def)
qed

lemma dealerTick_frame [simp]:
  "stage (dealerTick ms s) = stage s"
  "result (dealerTick ms s) = result s"
  "game (dealerTick ms s) = game s"
  "playerScore (dealerTick ms s) = playerScore s"
  "playerScoreTimer (dealerTick ms s) = playerScoreTimer s"
  "selectedBet (dealerTick ms s) = selectedBet s"
  "isBetting (dealerTick ms s) = isBetting s"
  "playerCards (dealerTick ms s) = playerCards s"
  "dealerCards (dealerTick ms s) = dealerCards s"
  "isPlayerActing (dealerTick ms s) = isPlayerActing s"
  "isDealerActing (dealerTick ms s) = isDealerActing s"
  "playerDrawIndex (dealerTick ms s) = playerDrawIndex s"
  "dealerDrawIndex (dealerTick ms s) = dealerDrawIndex s"
  by (simp_all add: dealerTick_def fireDealerScore_def split: option.splits)

section \<open>Double\<close>

lemma delay_fires:
  "playerScoreTimer s = Some left \<Longrightarrow> left \<le> ms \<Longrightarrow> delay ms s = dealerTick ms (firePlayerScore s)"
  by (simp add: delay_def dealerTick_def Let_def)

lemma delay_waits:
  "playerScoreTimer s = Some left \<Longrightarrow> ms < left \<Longrightarrow>
   delay ms s = dealerTick ms (s\<lparr>playerScoreTimer := Some (left - ms)\<rparr>)"
  by (simp add: delay_def dealerTick_def Let_def)

lemma spec_face_value_le: "spec_face_value r \<le> 10"
  by (simp add: spec_face_value_def)

lemma two_ranks_value:
  "resolveAces (nonAceSum [r1, r2]) (aceCount [r1, r2]) \<le> 21"
  using spec_face_value_le [of r1] spec_face_value_le [of r2]
    spec_face_value_nonneg [of r1] spec_face_value_nonneg [of r2]
  by (auto simp: nonAceSum_def aceCount_def)

lemma two_card_value:
  assumes "validHand cs" and "length (filter (\<lambda>c. \<not> isFaceDown c) cs) = 2"
  shows "\<exists>v. calculateHandValue cs = Some v \<and> v \<le> 21"
proof -
  from assms(2) have "length (revealedRanks cs) = 2" by (simp add: revealedRanks_def)
  then obtain r1 r2 where rs: "revealedRanks cs = [r1, r2]"
    by (cases "revealedRanks cs"; cases "tl (revealedRanks cs)") auto
  have "calculateHandValue cs = Some (resolveAces (nonAceSum [r1, r2]) (aceCount [r1, r2]))"
    by (simp add: calculateHandValue_closed [OF assms(1)] rs del: resolveAces.simps)
  with two_ranks_value [of r1 r2] show ?thesis by simp
qed

lemma calculateHandValue_snoc_down:
  "calculateHandValue (cs @ [c\<lparr>isFaceDown := True\<rparr>]) = calculateHandValue cs"
  by (simp add: calculateHandValue_def revealedRanks_def)

lemma doubleDraw_run:
  assumes pt: "stage s = PLAYER_TURN" and nb: "notBust s"
    and vh: "validHand (playerCards s)"
    and two: "length (filter (\<lambda>c. \<not> isFaceDown c) (playerCards s)) = 2"
  shows "fst (doubleDraw g s) = playerCards s @ [playerCardAt (playerDrawIndex s)]"
    and "playerCards (snd (doubleDraw g s)) = playerCards s @ [playerCardAt (playerDrawIndex s)]"
    and "playerDrawIndex (snd (doubleDraw g s)) = playerDrawIndex s + 1"
    and "game (snd (doubleDraw g s))
           = Some (g\<lparr>player := (player g)\<lparr>player_bet := currentBetOf g s * 2\<rparr>\<rparr>)"
    and "selectedBet (snd (doubleDraw g s)) = Some (currentBetOf g s * 2)"
    and "stage (snd (doubleDraw g s)) = PLAYER_TURN"
    and "result (snd (doubleDraw g s)) = None"
    and "playerScore (snd (doubleDraw g s)) = calculateHandValue (playerCards s)"
    and "playerScoreTimer (snd (doubleDraw g s)) = Some 170"
    and "dealerCards (snd (doubleDraw g s)) = dealerCards s"
    and "dealerDrawIndex (snd (doubleDraw g s)) = dealerDrawIndex s"
proof -
  let ?c = "playerCardAt (playerDrawIndex s)"
  let ?nb = "currentBetOf g s * 2"
  define s2 where "s2 = s\<lparr>isPlayerActing := True,
      game := Some (g\<lparr>player := (player g)\<lparr>player_bet := ?nb\<rparr>\<rparr>),
      selectedBet := Some ?nb, playerDrawIndex := playerDrawIndex s + 1\<rparr>"
  define a where "a = setPlayerCards (playerCards s @ [?c\<lparr>isFaceDown := True\<rparr>]) s2"
  define s3 where "s3 = delay 450 (bustEffect a)"
  define b where "b = setPlayerCards (playerCards s @ [?c]) s3"
  define s4 where "s4 = delay 150 (bustEffect b)"
  have dd: "doubleDraw g s = (playerCards s @ [?c], s4\<lparr>isPlayerActing := False\<rparr>)"
    by (simp add: doubleDraw_def drawNextPlayerCard_def playerCardAt_def Let_def flipLast_snoc
        s4_def b_def s3_def a_def s2_def split: prod.splits)
  from pt nb have r0: "result s = None" by (simp add: notBust_def)
  obtain v where v: "calculateHandValue (playerCards s) = Some v" "v \<le> 21"
    using two_card_value [OF vh two] by blast
  have "notBust a"
    by (rule notBust_same [OF nb]) (simp_all add: a_def s2_def)
  then have ba: "bustEffect a = a" by (rule notBust_fixed)
  have fa: "firePlayerScore a = a\<lparr>playerScore := Some v, playerScoreTimer := None\<rparr>"
    using v pt r0
    by (simp add: firePlayerScore_def a_def s2_def setPlayerCards_def calculateHandValue_snoc_down
        bustEffect_def)
  have ta: "playerScoreTimer a = Some 320" by (simp add: a_def)
  have s3: "s3 = dealerTick 450 (a\<lparr>playerScore := Some v, playerScoreTimer := None\<rparr>)"
    unfolding s3_def ba using delay_fires [OF ta, of 450] by (simp add: fa)
  have bb: "bustEffect b = b"
    using v by (simp add: bustEffect_def b_def s3)
  have tb: "playerScoreTimer b = Some 320" by (simp add: b_def)
  have s4: "s4 = dealerTick 150 (b\<lparr>playerScoreTimer := Some 170\<rparr>)"
    unfolding s4_def bb using delay_waits [OF tb, of 150] by simp
  show "fst (doubleDraw g s) = playerCards s @ [?c]"
    and "playerCards (snd (doubleDraw g s)) = playerCards s @ [?c]"
    and "playerDrawIndex (snd (doubleDraw g s)) = playerDrawIndex s + 1"
    and "game (snd (doubleDraw g s)) = Some (g\<lparr>player := (player g)\<lparr>player_bet := ?nb\<rparr>\<rparr>)"
    and "selectedBet (snd (doubleDraw g s)) = Some ?nb"
    and "stage (snd (doubleDraw g s)) = PLAYER_TURN"
    and "result (snd (doubleDraw g s)) = None"
    and "playerScore (snd (doubleDraw g s)) = calculateHandValue (playerCards s)"
    and "playerScoreTimer (snd (doubleDraw g s)) = Some 170"
    and "dealerCards (snd (doubleDraw g s)) = dealerCards s"
    and "dealerDrawIndex (snd (doubleDraw g s)) = dealerDrawIndex s"
    using pt r0 v
    by (simp_all add: dd s4 b_def s3 a_def s2_def)
qed

lemma decideOutcome_reason: "reason (decideOutcome p d) \<noteq> Bust"
  by (simp add: decideOutcome_def)

text \<open>
  A double that passes the guards of \<open>handleDouble\<close>, on a hand of two revealed cards
  that the bust effect has not ended, stores twice the current bet (twice the stored bet
  when that is not 0) in the game and in \<open>selectedBet\<close>, draws one card and turns it face
  up, and calls \<open>runDealerTurn\<close> while the stage is still PLAYER_TURN and no result is
  set: the score timer set when the card was turned has 170 ms left, so the bust effect
  has not seen the new card. The result is the one of the dealer's turn, computed from
  the three cards, also when they are worth more than 21; its reason is never the one of
  the bust effect. The game that \<open>runDealerTurn\<close> then stores is treated further down.
\<close>

theorem double_goes_to_dealer_turn:
  assumes "stage s = PLAYER_TURN"
    and "\<not> isBetting s \<and> \<not> isPlayerActing s \<and> \<not> isDealerActing s"
    and "result s = None"
    and "case playerScore s of None \<Rightarrow> True | Some q \<Rightarrow> q \<le> 21"
    and "game s = Some g"
    and "validHand (playerCards s)"
    and "length (filter (\<lambda>c. \<not> isFaceDown c) (playerCards s)) = 2"
    and "currentBetOf g s * 2 \<le> player_chips (player g)"
  shows "(let hand = playerCards s @ [playerCardAt (playerDrawIndex s)];
              s5 = snd (doubleDraw g s);
              d = fst (snd (dealerPlay (dealerCards s) s5))
          in fst (doubleDraw g s) = hand
           \<and> playerCards s5 = hand
           \<and> playerDrawIndex s5 = playerDrawIndex s + 1
           \<and> game s5 = Some (g\<lparr>player := (player g)\<lparr>player_bet := currentBetOf g s * 2\<rparr>\<rparr>)
           \<and> selectedBet s5 = Some (currentBetOf g s * 2)
           \<and> (player_bet (player g) \<noteq> 0 \<longrightarrow>
                map_option (\<lambda>g'. player_bet (player g')) (game s5)
                  = Some (player_bet (player g) * 2)
              \<and> selectedBet s5 = Some (player_bet (player g) * 2))
           \<and> stage s5 = PLAYER_TURN \<and> result s5 = None
           \<and> handleDouble s = runDealerTurn (Some g) (dealerCards s) hand s5
           \<and> stage (snd (snd (dealerPlay (dealerCards s) s5))) = DEALER_TURN
           \<and> stage (handleDouble s) = RESULT
           \<and> result (handleDouble s) = Some (decideOutcome (playerValueOf hand) d)
           \<and> reason (decideOutcome (playerValueOf hand) d) \<noteq> Bust
           \<and> (21 < playerValueOf hand \<and> d \<le> 21 \<longrightarrow>
                result (handleDouble s) = Some \<lparr>outcome = LOSE, reason = PlayerBust\<rparr>))"
proof -
  let ?hand = "playerCards s @ [playerCardAt (playerDrawIndex s)]"
  let ?s5 = "snd (doubleDraw g s)"
  let ?d = "fst (snd (dealerPlay (dealerCards s) ?s5))"
  from assms(1,3,4) have nb: "notBust s" by (simp add: notBust_def)
  note run = doubleDraw_run [OF assms(1) nb assms(6,7), of g]
  have hd: "handleDouble s = runDealerTurn (Some g) (dealerCards s) ?hand ?s5"
    using assms(1,2,5,7,8)
    by (simp add: handleDouble_def actionBlocked_def case_prod_beta run(1))
  have res: "result (handleDouble s) = Some (decideOutcome (playerValueOf ?hand) ?d)"
    unfolding hd by (simp add: runDealerTurn_settles)
  have bust: "result (handleDouble s) = Some \<lparr>outcome = LOSE, reason = PlayerBust\<rparr>"
    if "21 < playerValueOf ?hand \<and> ?d \<le> 21"
    using that unfolding res by (simp add: decideOutcome_def)
  have twice: "map_option (\<lambda>g'. player_bet (player g')) (game ?s5)
        = Some (player_bet (player g) * 2)
      \<and> selectedBet ?s5 = Some (player_bet (player g) * 2)"
    if "player_bet (player g) \<noteq> 0"
    using that by (simp add: run(4,5) currentBetOf_def)
  show ?thesis
    unfolding Let_def
    using run(1-7) hd res bust twice dealerPlay_idle(1) [of "dealerCards s" ?s5]
      runDealerTurn_stage [of "Some g" "dealerCards s" ?hand ?s5]
      decideOutcome_reason [of "playerValueOf ?hand" ?d]
    by (intro conjI impI) simp_all
qed

theorem double_goes_to_dealer_turn_witness:
  "playerValueOf
     (playerCards (playerTurn [faceUp ''K'', faceUp ''9''] [faceUp ''10'', faceDown ''7''] 10000 100)
        @ [playerCardAt 0]) = 24
   \<and> stage (handleDouble (playerTurn [faceUp ''K'', faceUp ''9''] [faceUp ''10'', faceDown ''7''] 10000 100))
       = RESULT
   \<and> result (handleDouble (playerTurn [faceUp ''K'', faceUp ''9''] [faceUp ''10'', faceDown ''7''] 10000 100))
       = Some \<lparr>outcome = LOSE, reason = PlayerBust\<rparr>"
proof -
  let ?s = "playerTurn [faceUp ''K'', faceUp ''9''] [faceUp ''10'', faceDown ''7''] 10000 100"
  let ?g = "\<lparr>game_id = 1, status = ''BET'',
             player = \<lparr>player_chips = 10000, player_cards = [], player_bet = 100\<rparr>,
             dealer = \<lparr>dealer_chips = 999999, dealer_cards = []\<rparr>\<rparr>"
  let ?hand = "playerCards ?s @ [playerCardAt (playerDrawIndex ?s)]"
  let ?s5 = "snd (doubleDraw ?g ?s)"
  have 1: "stage ?s = PLAYER_TURN"
    and 2: "\<not> isBetting ?s \<and> \<not> isPlayerActing ?s \<and> \<not> isDealerActing ?s"
    and 3: "result ?s = None" and 5: "game ?s = Some ?g"
    by (simp_all add: playerTurn_def)
  have 4: "case playerScore ?s of None \<Rightarrow> True | Some q \<Rightarrow> q \<le> 21"
    by (simp add: playerTurn_def hand_eval)
  have 6: "validHand (playerCards ?s)"
    by (simp add: playerTurn_def validHand_def faceUp_def isRank_def)
  have 7: "length (filter (\<lambda>c. \<not> isFaceDown c) (playerCards ?s)) = 2"
    by (simp add: playerTurn_def faceUp_def)
  have 8: "currentBetOf ?g ?s * 2 \<le> player_chips (player ?g)"
    by (simp add: currentBetOf_def)
  have p: "playerValueOf ?hand = 24"
    by (simp add: playerValueOf_def playerTurn_def playerCardAt_def mockPlayerDeck_def
        parseCard_def hand_eval)
  have i: "playerDrawIndex ?s = 0" by (simp add: playerTurn_def)
  note t = double_goes_to_dealer_turn [OF 1 2 3 4 5 6 7 8, unfolded Let_def]
  from t have st: "stage (handleDouble ?s) = RESULT" by blast
  from t have imp: "21 < playerValueOf ?hand \<and> fst (snd (dealerPlay (dealerCards ?s) ?s5)) \<le> 21 \<longrightarrow>
                result (handleDouble ?s) = Some \<lparr>outcome = LOSE, reason = PlayerBust\<rparr>"
    by blast
  have d: "fst (snd (dealerPlay (dealerCards ?s) ?s5)) = 17"
    by (simp add: dealerPlay_loop dealerValueOf_def hand_eval playerTurn_def dealerLoop_stop)
  from imp p d st show ?thesis by (simp add: i)
qed

section \<open>Further properties of the controller\<close>

text \<open>
  After a hit from a hand that is not bust, the handler ends 600 ms after the click with
  the stage still PLAYER_TURN, no busy flag set and \<open>playerScore\<close> still the value of the
  hand before the hit: the score timer set when the new card was turned has 170 ms left.
  Until it fires the guard of hit, stand and double is open, whatever the new hand is
  worth; when it fires, a hand above 21 ends the round.
\<close>

lemma hit_leaves_score_behind:
  assumes "\<not> actionBlocked s" and "result s = None"
    and "case playerScore s of None \<Rightarrow> True | Some q \<Rightarrow> q \<le> 21"
    and "case calculateHandValue (playerCards s) of None \<Rightarrow> True | Some q \<Rightarrow> q \<le> 21"
    and "list_all (\<lambda>c. \<not> isFaceDown c) (playerCards s)"
  shows "playerCards (handleHit s) = playerCards s @ [playerCardAt (playerDrawIndex s)]
       \<and> stage (handleHit s) = PLAYER_TURN \<and> result (handleHit s) = None
       \<and> \<not> actionBlocked (handleHit s)
       \<and> playerScore (handleHit s) = calculateHandValue (playerCards s)
       \<and> playerScoreTimer (handleHit s) = Some 170
       \<and> game (handleHit s) = game s
       \<and> playerScore (delay 170 (handleHit s)) = calculateHandValue (playerCards (handleHit s))
       \<and> (\<forall>q. calculateHandValue (playerCards (handleHit s)) = Some q \<and> 21 < q \<longrightarrow>
             stage (delay 170 (handleHit s)) = RESULT
           \<and> result (delay 170 (handleHit s)) = Some \<lparr>outcome = LOSE, reason = Bust\<rparr>)"
proof -
  let ?c = "playerCardAt (playerDrawIndex s)"
  from assms(1) have pt: "stage s = PLAYER_TURN"
    and fl: "\<not> isBetting s" "\<not> isPlayerActing s" "\<not> isDealerActing s"
    by (simp_all add: actionBlocked_def)
  from pt assms(2,3) have nb: "notBust s" by (simp add: notBust_def)
  define s2 where "s2 = s\<lparr>isPlayerActing := True, playerDrawIndex := playerDrawIndex s + 1\<rparr>"
  define a where "a = setPlayerCards (playerCards s @ [?c\<lparr>isFaceDown := True\<rparr>]) s2"
  define s4 where "s4 = delay 450 (bustEffect a)"
  define b where "b = setPlayerCards (playerCards s @ [?c]) s4"
  define s6 where "s6 = delay 150 (bustEffect b)"
  have keep: "map (\<lambda>c. if isFaceDown c then c\<lparr>isFaceDown := False\<rparr> else c) (playerCards s)
      = playerCards s"
    using assms(5) by (intro map_idI) (simp add: list_all_iff)
  have pc4: "playerCards s4 = playerCards s @ [?c\<lparr>isFaceDown := True\<rparr>]"
    by (simp add: s4_def a_def)
  have hh: "handleHit s = bustEffect (s6\<lparr>isPlayerActing := False\<rparr>)"
    using assms(1)
    by (simp add: handleHit_def drawNextPlayerCard_def Let_def case_prod_beta s6_def b_def
        s4_def a_def s2_def keep playerCardAt_def)
  have "notBust a"
    by (rule notBust_same [OF nb]) (simp_all add: a_def s2_def)
  then have ba: "bustEffect a = a" by (rule notBust_fixed)
  have fa: "firePlayerScore a
      = a\<lparr>playerScore := calculateHandValue (playerCards s), playerScoreTimer := None\<rparr>"
    using assms(4) pt
    by (simp add: firePlayerScore_def a_def s2_def setPlayerCards_def calculateHandValue_snoc_down
        bustEffect_def split: option.splits)
  have ta: "playerScoreTimer a = Some 320" by (simp add: a_def)
  have s4: "s4 = dealerTick 450
      (a\<lparr>playerScore := calculateHandValue (playerCards s), playerScoreTimer := None\<rparr>)"
    unfolding s4_def ba using delay_fires [OF ta, of 450] by (simp add: fa)
  have bb: "bustEffect b = b"
    using assms(4) by (simp add: bustEffect_def b_def s4 split: option.splits)
  have tb: "playerScoreTimer b = Some 320" by (simp add: b_def)
  have s6: "s6 = dealerTick 150 (b\<lparr>playerScoreTimer := Some 170\<rparr>)"
    unfolding s6_def bb using delay_waits [OF tb, of 150] by simp
  have ps: "playerScore s6 = calculateHandValue (playerCards s)" "result s6 = None"
    using assms(2) by (simp_all add: s6 b_def s4 a_def s2_def)
  have "notBust (s6\<lparr>isPlayerActing := False\<rparr>)"
    using assms(4) by (simp add: notBust_def ps)
  then have be: "bustEffect (s6\<lparr>isPlayerActing := False\<rparr>) = s6\<lparr>isPlayerActing := False\<rparr>"
    by (rule notBust_fixed)
  have h: "handleHit s = (dealerTick 150 (b\<lparr>playerScoreTimer := Some 170\<rparr>))\<lparr>isPlayerActing := False\<rparr>"
    by (subst hh, subst be, subst s6) (rule refl)
  have t: "playerScoreTimer (handleHit s) = Some 170" by (simp add: h)
  have d: "delay 170 (handleHit s) = dealerTick 170 (firePlayerScore (handleHit s))"
    using delay_fires [OF t, of 170] by simp
  have st: "stage (handleHit s) = PLAYER_TURN" "result (handleHit s) = None"
    using pt assms(2) by (simp_all add: h b_def s4 a_def s2_def)
  show ?thesis
    using pt assms(2) fl st
    by (simp add: d firePlayerScore_def bustEffect_def Let_def)
      (simp add: h b_def s4 a_def s2_def actionBlocked_def)
qed

text \<open>
  What a hit that passes the guard draws, whatever the hand is worth.
\<close>

lemma handleHit_draws:
  assumes "\<not> actionBlocked s" and "list_all (\<lambda>c. \<not> isFaceDown c) (playerCards s)"
  shows "playerCards (handleHit s) = playerCards s @ [playerCardAt (playerDrawIndex s)]"
    and "playerDrawIndex (handleHit s) = playerDrawIndex s + 1"
    and "dealerCards (handleHit s) = dealerCards s"
    and "dealerDrawIndex (handleHit s) = dealerDrawIndex s"
    and "selectedBet (handleHit s) = selectedBet s"
proof -
  have keep: "map (\<lambda>c. if isFaceDown c then c\<lparr>isFaceDown := False\<rparr> else c) (playerCards s)
      = playerCards s"
    using assms(2) by (intro map_idI) (simp add: list_all_iff)
  show "playerCards (handleHit s) = playerCards s @ [playerCardAt (playerDrawIndex s)]"
    and "playerDrawIndex (handleHit s) = playerDrawIndex s + 1"
    and "dealerCards (handleHit s) = dealerCards s"
    and "dealerDrawIndex (handleHit s) = dealerDrawIndex s"
    and "selectedBet (handleHit s) = selectedBet s"
    using assms(1)
    by (simp_all add: handleHit_def drawNextPlayerCard_def Let_def case_prod_beta keep
        playerCardAt_def)
qed

lemma deck_eval:
  "playerCardAt 0 = \<lparr>rank = ''5'', suit = ''clubs/club'', isFaceDown = False\<rparr>"
  "playerCardAt (Suc 0) = \<lparr>rank = ''9'', suit = ''diamonds/diamond'', isFaceDown = False\<rparr>"
  "playerCardAt 2 = \<lparr>rank = ''2'', suit = ''spades/spade'', isFaceDown = False\<rparr>"
  by (simp_all add: playerCardAt_def mockPlayerDeck_def parseCard_def)

lemma dealerPlay_frame:
  "selectedBet (snd (snd (dealerPlay dc s))) = selectedBet s"
  "playerCards (snd (snd (dealerPlay dc s))) = playerCards s"
  "playerDrawIndex (snd (snd (dealerPlay dc s))) = playerDrawIndex s"
  using dealerLoop_frame [of "map (\<lambda>c. c\<lparr>isFaceDown := False\<rparr>) dc"
      "dealerValueOf (map (\<lambda>c. c\<lparr>isFaceDown := False\<rparr>) dc)"
      "delay 650 (setDealerCards (map (\<lambda>c. c\<lparr>isFaceDown := False\<rparr>) dc)
          (s\<lparr>stage := DEALER_TURN, isDealerActing := True\<rparr>))"]
  by (simp_all add: dealerPlay_loop)

text \<open>
  \<open>runDealerTurn\<close> settles on the game object of the render in which the handler was
  created. For a double that is the game before \<open>setGame\<close> stored the doubled bet: the
  chips change by the bet before doubling and the stored bet is that bet again, while
  \<open>selectedBet\<close> shows the doubled one.
\<close>

lemma double_settles_at_old_bet:
  assumes "stage s = PLAYER_TURN"
    and "\<not> isBetting s \<and> \<not> isPlayerActing s \<and> \<not> isDealerActing s"
    and "result s = None"
    and "case playerScore s of None \<Rightarrow> True | Some q \<Rightarrow> q \<le> 21"
    and "game s = Some g"
    and "validHand (playerCards s)"
    and "length (filter (\<lambda>c. \<not> isFaceDown c) (playerCards s)) = 2"
    and "currentBetOf g s * 2 \<le> player_chips (player g)"
  shows "(let res = decideOutcome
                      (playerValueOf (playerCards s @ [playerCardAt (playerDrawIndex s)]))
                      (fst (snd (dealerPlay (dealerCards s) (snd (doubleDraw g s)))))
          in result (handleDouble s) = Some res
           \<and> game (handleDouble s) = calculatePayout (Some g) res
           \<and> map_option (\<lambda>g'. player_bet (player g')) (game (handleDouble s))
               = Some (player_bet (player g))
           \<and> map_option (\<lambda>g'. player_chips (player g')) (game (handleDouble s))
               = Some (player_chips (player g)
                       + (case outcome res of
                            WIN \<Rightarrow> player_bet (player g)
                          | LOSE \<Rightarrow> - player_bet (player g)
                          | PUSH \<Rightarrow> 0))
           \<and> selectedBet (handleDouble s) = Some (currentBetOf g s * 2))"
proof -
  let ?hand = "playerCards s @ [playerCardAt (playerDrawIndex s)]"
  let ?s5 = "snd (doubleDraw g s)"
  let ?res = "decideOutcome (playerValueOf ?hand) (fst (snd (dealerPlay (dealerCards s) ?s5)))"
  from assms(1,3,4) have nb: "notBust s" by (simp add: notBust_def)
  note run = doubleDraw_run [OF assms(1) nb assms(6,7), of g]
  have hd: "handleDouble s = runDealerTurn (Some g) (dealerCards s) ?hand ?s5"
    using assms(1,2,5,7,8)
    by (simp add: handleDouble_def actionBlocked_def case_prod_beta run(1))
  have "result (handleDouble s) = Some ?res"
    and "game (handleDouble s) = calculatePayout (Some g) ?res"
    and "selectedBet (handleDouble s) = Some (currentBetOf g s * 2)"
    unfolding hd by (simp_all add: runDealerTurn_settles dealerPlay_frame run(5))
  moreover have "map_option (\<lambda>g'. player_bet (player g')) (calculatePayout (Some g) ?res)
      = Some (player_bet (player g))"
    and "map_option (\<lambda>g'. player_chips (player g')) (calculatePayout (Some g) ?res)
      = Some (player_chips (player g)
              + (case outcome ?res of
                   WIN \<Rightarrow> player_bet (player g)
                 | LOSE \<Rightarrow> - player_bet (player g)
                 | PUSH \<Rightarrow> 0))"
    by (cases "outcome ?res"; simp add: calculatePayout_def)+
  ultimately show ?thesis unfolding Let_def by simp
qed

section \<open>Two rounds from the initial state\<close>

text \<open>
  The round after a bet of 100: the deal is A, K against 10 and a face-down 7, the mock
  deck of the player gives 5, 9, 2. The fields of the state after the bet, after one hit
  and after two.
\<close>

lemma bet_fields:
  "\<not> actionBlocked (handleBet 100 initial)"
  "result (handleBet 100 initial) = None"
  "playerScore (handleBet 100 initial) = Some 21"
  "playerCards (handleBet 100 initial) =
     [\<lparr>rank = ''A'', suit = ''hearts/heart'', isFaceDown = False\<rparr>,
      \<lparr>rank = ''K'', suit = ''spades/spade'', isFaceDown = False\<rparr>]"
  "dealerCards (handleBet 100 initial) =
     [\<lparr>rank = ''10'', suit = ''diamonds/diamond'', isFaceDown = False\<rparr>,
      \<lparr>rank = ''7'', suit = ''clubs/club'', isFaceDown = True\<rparr>]"
  "playerDrawIndex (handleBet 100 initial) = 0"
  "map_option (\<lambda>g. player_chips (player g)) (game (handleBet 100 initial)) = Some 10000"
  "map_option (\<lambda>g. player_bet (player g)) (game (handleBet 100 initial)) = Some 100"
  by (simp_all add: bet_state actionBlocked_def)

lemma hit1_fields:
  "\<not> actionBlocked (handleHit (handleBet 100 initial))"
  "result (handleHit (handleBet 100 initial)) = None"
  "playerScore (handleHit (handleBet 100 initial)) = Some 21"
  "playerCards (handleHit (handleBet 100 initial)) =
     [\<lparr>rank = ''A'', suit = ''hearts/heart'', isFaceDown = False\<rparr>,
      \<lparr>rank = ''K'', suit = ''spades/spade'', isFaceDown = False\<rparr>,
      \<lparr>rank = ''5'', suit = ''clubs/club'', isFaceDown = False\<rparr>]"
  "dealerCards (handleHit (handleBet 100 initial)) = dealerCards (handleBet 100 initial)"
  "playerDrawIndex (handleHit (handleBet 100 initial)) = 1"
  "game (handleHit (handleBet 100 initial)) = game (handleBet 100 initial)"
proof -
  let ?b = "handleBet 100 initial"
  have v: "calculateHandValue (playerCards ?b) = Some 21"
    by (simp add: bet_fields hand_eval)
  have 3: "case playerScore ?b of None \<Rightarrow> True | Some q \<Rightarrow> q \<le> 21"
    and 4: "case calculateHandValue (playerCards ?b) of None \<Rightarrow> True | Some q \<Rightarrow> q \<le> 21"
    and 5: "list_all (\<lambda>c. \<not> isFaceDown c) (playerCards ?b)"
    unfolding v by (simp_all add: bet_fields)
  note r = hit_leaves_score_behind [OF bet_fields(1,2) 3 4 5]
  note d = handleHit_draws [OF bet_fields(1) 5]
  from r show "\<not> actionBlocked (handleHit ?b)" "result (handleHit ?b) = None"
    "game (handleHit ?b) = game ?b" by blast+
  from r have "playerScore (handleHit ?b) = calculateHandValue (playerCards ?b)" by blast
  then show "playerScore (handleHit ?b) = Some 21" by (simp add: v)
  show "playerCards (handleHit ?b) =
     [\<lparr>rank = ''A'', suit = ''hearts/heart'', isFaceDown = False\<rparr>,
      \<lparr>rank = ''K'', suit = ''spades/spade'', isFaceDown = False\<rparr>,
      \<lparr>rank = ''5'', suit = ''clubs/club'', isFaceDown = False\<rparr>]"
    by (simp add: d(1) bet_fields deck_eval)
  show "dealerCards (handleHit ?b) = dealerCards ?b" by (rule d(3))
  show "playerDrawIndex (handleHit ?b) = 1" by (simp add: d(2) bet_fields)
qed

lemma hit2_fields:
  "\<not> actionBlocked (handleHit (handleHit (handleBet 100 initial)))"
  "stage (handleHit (handleHit (handleBet 100 initial))) = PLAYER_TURN"
  "result (handleHit (handleHit (handleBet 100 initial))) = None"
  "playerScore (handleHit (handleHit (handleBet 100 initial))) = Some 16"
  "playerCards (handleHit (handleHit (handleBet 100 initial))) =
     [\<lparr>rank = ''A'', suit = ''hearts/heart'', isFaceDown = False\<rparr>,
      \<lparr>rank = ''K'', suit = ''spades/spade'', isFaceDown = False\<rparr>,
      \<lparr>rank = ''5'', suit = ''clubs/club'', isFaceDown = False\<rparr>,
      \<lparr>rank = ''9'', suit = ''diamonds/diamond'', isFaceDown = False\<rparr>]"
  "dealerCards (handleHit (handleHit (handleBet 100 initial))) = dealerCards (handleBet 100 initial)"
  "playerDrawIndex (handleHit (handleHit (handleBet 100 initial))) = 2"
  "game (handleHit (handleHit (handleBet 100 initial))) = game (handleBet 100 initial)"
  "playerScoreTimer (handleHit (handleHit (handleBet 100 initial))) = Some 170"
  "stage (delay 170 (handleHit (handleHit (handleBet 100 initial)))) = RESULT"
  "result (delay 170 (handleHit (handleHit (handleBet 100 initial))))
     = Some \<lparr>outcome = LOSE, reason = Bust\<rparr>"
proof -
  let ?h = "handleHit (handleBet 100 initial)"
  have v: "calculateHandValue (playerCards ?h) = Some 16"
    by (simp add: hit1_fields hand_eval)
  have 3: "case playerScore ?h of None \<Rightarrow> True | Some q \<Rightarrow> q \<le> 21"
    and 4: "case calculateHandValue (playerCards ?h) of None \<Rightarrow> True | Some q \<Rightarrow> q \<le> 21"
    and 5: "list_all (\<lambda>c. \<not> isFaceDown c) (playerCards ?h)"
    unfolding v by (simp_all add: hit1_fields)
  note r = hit_leaves_score_behind [OF hit1_fields(1,2) 3 4 5]
  note d = handleHit_draws [OF hit1_fields(1) 5]
  from r show "\<not> actionBlocked (handleHit ?h)" "result (handleHit ?h) = None"
    "stage (handleHit ?h) = PLAYER_TURN" "playerScoreTimer (handleHit ?h) = Some 170"
    by blast+
  from r have "game (handleHit ?h) = game ?h" by blast
  then show "game (handleHit ?h) = game (handleBet 100 initial)" by (simp add: hit1_fields)
  from r have "playerScore (handleHit ?h) = calculateHandValue (playerCards ?h)" by blast
  then show "playerScore (handleHit ?h) = Some 16" by (simp add: v)
  show pc: "playerCards (handleHit ?h) =
     [\<lparr>rank = ''A'', suit = ''hearts/heart'', isFaceDown = False\<rparr>,
      \<lparr>rank = ''K'', suit = ''spades/spade'', isFaceDown = False\<rparr>,
      \<lparr>rank = ''5'', suit = ''clubs/club'', isFaceDown = False\<rparr>,
      \<lparr>rank = ''9'', suit = ''diamonds/diamond'', isFaceDown = False\<rparr>]"
    by (simp add: d(1) hit1_fields deck_eval)
  show "dealerCards (handleHit ?h) = dealerCards (handleBet 100 initial)"
    by (simp add: d(3) hit1_fields)
  show "playerDrawIndex (handleHit ?h) = 2" by (simp add: d(2) hit1_fields)
  have w: "calculateHandValue (playerCards (handleHit ?h)) = Some 25"
    by (simp add: pc hand_eval)
  from r have "\<forall>q. calculateHandValue (playerCards (handleHit ?h)) = Some q \<and> 21 < q \<longrightarrow>
             stage (delay 170 (handleHit ?h)) = RESULT
           \<and> result (delay 170 (handleHit ?h)) = Some \<lparr>outcome = LOSE, reason = Bust\<rparr>"
    by blast
  with w show "stage (delay 170 (handleHit ?h)) = RESULT"
    "result (delay 170 (handleHit ?h)) = Some \<lparr>outcome = LOSE, reason = Bust\<rparr>"
    by simp_all
qed

text \<open>
  C4. The round is not ended as soon as the revealed hand is worth more than 21, but when
  the score timer has copied that value into \<open>playerScore\<close>, 320 ms after the card was
  turned, of which 170 ms are left when \<open>handleHit\<close> returns. After a bet of 100 and two
  hits the page is in PLAYER_TURN with no result and no busy flag set, the revealed hand
  A, K, 5, 9 is worth 25 and \<open>playerScore\<close> is still 16. In that state a third hit is
  processed and draws the 2, and a stand enters DEALER_TURN and ends the round LOSE with
  the reason of the dealer's turn. The bust effect ends the round with its own reason
  only if 170 ms pass without an action.
\<close>

theorem bust_hand_in_player_turn:
  "reachable (handleHit (handleHit (handleBet 100 initial)))
   \<and> stage (handleHit (handleHit (handleBet 100 initial))) = PLAYER_TURN
   \<and> result (handleHit (handleHit (handleBet 100 initial))) = None
   \<and> \<not> isBetting (handleHit (handleHit (handleBet 100 initial)))
   \<and> \<not> isPlayerActing (handleHit (handleHit (handleBet 100 initial)))
   \<and> \<not> isDealerActing (handleHit (handleHit (handleBet 100 initial)))
   \<and> map rank (filter (\<lambda>c. \<not> isFaceDown c)
        (playerCards (handleHit (handleHit (handleBet 100 initial))))) = [''A'', ''K'', ''5'', ''9'']
   \<and> calculateHandValue (playerCards (handleHit (handleHit (handleBet 100 initial)))) = Some 25
   \<and> playerScore (handleHit (handleHit (handleBet 100 initial))) = Some 16
   \<and> map rank (playerCards (handleHit (handleHit (handleHit (handleBet 100 initial)))))
       = [''A'', ''K'', ''5'', ''9'', ''2'']
   \<and> playerDrawIndex (handleHit (handleHit (handleHit (handleBet 100 initial)))) = 3
   \<and> stage (snd (snd (dealerPlay (dealerCards (handleHit (handleHit (handleBet 100 initial))))
        (handleHit (handleHit (handleBet 100 initial)))))) = DEALER_TURN
   \<and> stage (handleStand (handleHit (handleHit (handleBet 100 initial)))) = RESULT
   \<and> result (handleStand (handleHit (handleHit (handleBet 100 initial))))
       = Some \<lparr>outcome = LOSE, reason = PlayerBust\<rparr>
   \<and> stage (delay 170 (handleHit (handleHit (handleBet 100 initial)))) = RESULT
   \<and> result (delay 170 (handleHit (handleHit (handleBet 100 initial))))
       = Some \<lparr>outcome = LOSE, reason = Bust\<rparr>"
proof -
  let ?t = "handleHit (handleHit (handleBet 100 initial))"
  have re: "reachable ?t" by (intro reachable.intros) simp
  have fl: "\<not> isBetting ?t" "\<not> isPlayerActing ?t" "\<not> isDealerActing ?t"
    using hit2_fields(1) by (simp_all add: actionBlocked_def)
  have 5: "list_all (\<lambda>c. \<not> isFaceDown c) (playerCards ?t)"
    by (simp add: hit2_fields)
  note d = handleHit_draws [OF hit2_fields(1) 5]
  have h3: "map rank (playerCards (handleHit ?t)) = [''A'', ''K'', ''5'', ''9'', ''2'']"
    "playerDrawIndex (handleHit ?t) = 3"
    by (simp_all add: d(1,2) hit2_fields deck_eval)
  have v: "calculateHandValue (playerCards ?t) = Some 25"
    "map rank (filter (\<lambda>c. \<not> isFaceDown c) (playerCards ?t)) = [''A'', ''K'', ''5'', ''9'']"
    by (simp_all add: hit2_fields hand_eval)
  have pv: "playerValueOf (playerCards ?t) = 25"
    by (simp add: playerValueOf_def hit2_fields hand_eval)
  have dv: "fst (snd (dealerPlay (dealerCards ?t) ?t)) = 17"
    by (simp add: hit2_fields(6) bet_fields dealerPlay_loop dealerValueOf_def hand_eval
        dealerLoop_stop)
  have hs: "handleStand ?t = runDealerTurn (game ?t) (dealerCards ?t) (playerCards ?t) ?t"
    using hit2_fields(1) by (simp add: handleStand_def)
  have rs: "result (handleStand ?t) = Some \<lparr>outcome = LOSE, reason = PlayerBust\<rparr>"
    unfolding hs by (simp add: runDealerTurn_settles pv dv decideOutcome_def)
  have ss: "stage (handleStand ?t) = RESULT"
    unfolding hs by (rule runDealerTurn_stage)
  show ?thesis
    using re fl h3 v rs ss hit2_fields(2,3,4,10,11) dealerPlay_idle(1) [of "dealerCards ?t" ?t]
    by (intro conjI)
qed


text \<open>
  The round after a bet of 500.
\<close>

lemma bet500_state: "handleBet 500 initial =
  \<lparr>selectedBet = Some 500, isBetting = False,
    playerCards =
      [\<lparr>rank = ''A'', suit = ''hearts/heart'', isFaceDown = False\<rparr>,
       \<lparr>rank = ''K'', suit = ''spades/spade'', isFaceDown = False\<rparr>],
    dealerCards =
      [\<lparr>rank = ''10'', suit = ''diamonds/diamond'', isFaceDown = False\<rparr>,
       \<lparr>rank = ''7'', suit = ''clubs/club'', isFaceDown = True\<rparr>],
    playerScore = Some 21, dealerScore = Some 10, stage = PLAYER_TURN,
    result = None, isPlayerActing = False, isDealerActing = False,
    game =
      Some
       \<lparr>game_id = 1, status = ''BET'',
          player =
            \<lparr>player_chips = 10000,
               player_cards = [(''A'', Heart), (''K'', Spade)],
               player_bet = 500\<rparr>,
          dealer =
            \<lparr>dealer_chips = 999999,
               dealer_cards = [(''10'', Diamond), (''7'', Club)]\<rparr>\<rparr>,
    playerDrawIndex = 0, dealerDrawIndex = 0, playerScoreTimer = None,
    dealerScoreTimer = None\<rparr>"
  by code_simp

text \<open>
  C5. The doubled bet does not outlast the dealer's turn. After a bet of 500 the hand is
  A, K, the stored bet 500 and the chips 10000. A double passes the guards without an
  alert, stores the bet 1000 and draws the 5; the dealer turns up 17 and the round ends
  LOSE with the three cards worth 16. \<open>runDealerTurn\<close> pays out on the game object of the
  render in which the handler was created, so the game it stores has the bet 500 again
  and 9500 chips: the round is settled at the single bet, while \<open>selectedBet\<close> shows
  1000.
\<close>

theorem double_settled_at_single_bet:
  "reachable (handleBet 500 initial)
   \<and> stage (handleBet 500 initial) = PLAYER_TURN
   \<and> map rank (filter (\<lambda>c. \<not> isFaceDown c) (playerCards (handleBet 500 initial))) = [''A'', ''K'']
   \<and> map_option (\<lambda>g. player_bet (player g)) (game (handleBet 500 initial)) = Some 500
   \<and> map_option (\<lambda>g. player_chips (player g)) (game (handleBet 500 initial)) = Some 10000
   \<and> \<not> handleDouble_alerts (handleBet 500 initial)
   \<and> map_option (\<lambda>g. player_bet (player g))
        (Option.bind (game (handleBet 500 initial))
           (\<lambda>g. game (snd (doubleDraw g (handleBet 500 initial))))) = Some 1000
   \<and> map rank (playerCards (handleDouble (handleBet 500 initial))) = [''A'', ''K'', ''5'']
   \<and> stage (handleDouble (handleBet 500 initial)) = RESULT
   \<and> result (handleDouble (handleBet 500 initial)) = Some \<lparr>outcome = LOSE, reason = Lower\<rparr>
   \<and> selectedBet (handleDouble (handleBet 500 initial)) = Some 1000
   \<and> map_option (\<lambda>g. player_bet (player g)) (game (handleDouble (handleBet 500 initial)))
       = Some 500
   \<and> map_option (\<lambda>g. player_chips (player g)) (game (handleDouble (handleBet 500 initial)))
       = Some 9500"
proof -
  let ?b = "handleBet 500 initial"
  let ?g = "\<lparr>game_id = 1, status = ''BET'',
             player = \<lparr>player_chips = 10000,
                        player_cards = [(''A'', Heart), (''K'', Spade)], player_bet = 500\<rparr>,
             dealer = \<lparr>dealer_chips = 999999,
                        dealer_cards = [(''10'', Diamond), (''7'', Club)]\<rparr>\<rparr>"
  let ?hand = "playerCards ?b @ [playerCardAt (playerDrawIndex ?b)]"
  let ?s5 = "snd (doubleDraw ?g ?b)"
  have re: "reachable ?b" by (intro reachable.intros) simp
  have 1: "stage ?b = PLAYER_TURN"
    and 2: "\<not> isBetting ?b \<and> \<not> isPlayerActing ?b \<and> \<not> isDealerActing ?b"
    and 3: "result ?b = None"
    and 4: "case playerScore ?b of None \<Rightarrow> True | Some q \<Rightarrow> q \<le> 21"
    and 5: "game ?b = Some ?g"
    and 7: "length (filter (\<lambda>c. \<not> isFaceDown c) (playerCards ?b)) = 2"
    and pc: "playerCards ?b =
      [\<lparr>rank = ''A'', suit = ''hearts/heart'', isFaceDown = False\<rparr>,
       \<lparr>rank = ''K'', suit = ''spades/spade'', isFaceDown = False\<rparr>]"
    and dc: "dealerCards ?b =
      [\<lparr>rank = ''10'', suit = ''diamonds/diamond'', isFaceDown = False\<rparr>,
       \<lparr>rank = ''7'', suit = ''clubs/club'', isFaceDown = True\<rparr>]"
    and ix: "playerDrawIndex ?b = 0"
    and sb: "selectedBet ?b = Some 500"
    by (simp_all add: bet500_state)
  have 6: "validHand (playerCards ?b)"
    by (simp add: pc validHand_def isRank_def)
  have cb: "currentBetOf ?g ?b = 500" by (simp add: currentBetOf_def)
  have 8: "currentBetOf ?g ?b * 2 \<le> player_chips (player ?g)" by (simp add: cb)
  have al: "\<not> handleDouble_alerts ?b"
    by (simp add: handleDouble_alerts_def 5 7 cb)
  from 1 3 4 have nb: "notBust ?b" by (simp add: notBust_def)
  note run = doubleDraw_run [OF 1 nb 6 7, of ?g]
  have mid: "map_option (\<lambda>g. player_bet (player g))
      (Option.bind (game ?b) (\<lambda>g. game (snd (doubleDraw g ?b)))) = Some 1000"
    by (simp add: 5 run(4) cb)
  have pv: "playerValueOf ?hand = 16"
    by (simp add: playerValueOf_def pc ix deck_eval hand_eval)
  have dv: "fst (snd (dealerPlay (dealerCards ?b) ?s5)) = 17"
    by (simp add: dc dealerPlay_loop dealerValueOf_def hand_eval dealerLoop_stop)
  have res: "decideOutcome 16 17 = \<lparr>outcome = LOSE, reason = Lower\<rparr>"
    by (simp add: decideOutcome_def)
  note t = double_settles_at_old_bet [OF 1 2 3 4 5 6 7 8, unfolded Let_def pv dv res cb]
  have hd: "handleDouble ?b = runDealerTurn (Some ?g) (dealerCards ?b) ?hand ?s5"
    using 1 2 7 8 by (simp add: handleDouble_def actionBlocked_def case_prod_beta run(1) 5)
  have hc: "map rank (playerCards (handleDouble ?b)) = [''A'', ''K'', ''5'']"
    unfolding hd by (simp add: runDealerTurn_settles dealerPlay_frame run(2) pc ix deck_eval)
  have st: "stage (handleDouble ?b) = RESULT"
    unfolding hd by (rule runDealerTurn_stage)
  from t have f: "result (handleDouble ?b) = Some \<lparr>outcome = LOSE, reason = Lower\<rparr>"
    "selectedBet (handleDouble ?b) = Some 1000"
    "map_option (\<lambda>g. player_bet (player g)) (game (handleDouble ?b)) = Some 500"
    "map_option (\<lambda>g. player_chips (player g)) (game (handleDouble ?b)) = Some 9500"
    by (simp_all add: calculatePayout_def)
  have b0: "map rank (filter (\<lambda>c. \<not> isFaceDown c) (playerCards ?b)) = [''A'', ''K'']"
    "map_option (\<lambda>g. player_bet (player g)) (game ?b) = Some 500"
    "map_option (\<lambda>g. player_chips (player g)) (game ?b) = Some 10000"
    by (simp_all add: pc 5)
  show ?thesis
    using re 1 b0 al mid hc st f by (intro conjI)
qed

end
